theory Spec2Isabelle
  imports Main "HOL-Library.Char_ord" "HOL-Library.Sublist"
begin

section \<open>A static asset server: the request pipeline of index.js\<close>

text \<open>
  The program is an Express application. Its handlers are registered in this order:
  the host middleware (\<open>app.use\<close>), three Cache-Control routes (\<open>app.get\<close>), the file
  handler (\<open>app.get('/*')\<close>), the terminal 404 middleware and the error middleware.
  The embedding follows that order. A request is a record of what the handlers read from
  \<open>req\<close>; a response is the status, the headers and the body the handlers hand to \<open>res\<close>.
  The file system is a pair of functions (\<open>statFile\<close>, \<open>readFile\<close>), each of which may
  fail; every call the code makes to one of them is written to a log that the handlers
  return next to their result. A JavaScript exception is a value of its own (\<open>Throw\<close>).

  Strings are lists of 8-bit characters. The functions of Node's \<open>path\<close> module (POSIX
  flavour) that the program calls are modelled on path segments.

  Of Express (version 4) the embedding has the router's dispatch: the handlers are
  called in the order of registration, \<open>app.use\<close> handlers for every request and
  \<open>app.get\<close> handlers for GET and HEAD requests whose path matches, and a route whose
  parameter cannot be decoded passes an error on instead. Request paths are taken as
  the HTTP parser delivers them: they begin with a slash and hold no line terminator, so
  that the route \<open>/*\<close> matches every path. A response is what the handler passes to
  \<open>res\<close>; what \<open>res.send\<close> adds on the way out (a charset, an ETag, the answer 304 to a
  conditional request) is not modelled.
\<close>

subsection \<open>Node's path module (POSIX)\<close>

text \<open>\<open>s.split('/')\<close>: the segments between the separators; never an empty list.\<close>

fun split_path :: "string \<Rightarrow> string list" where
  "split_path [] = [[]]"
| "split_path (c # cs) =
     (if c = CHR ''/'' then [] # split_path cs
      else (case split_path cs of [] \<Rightarrow> [[c]] | s # ss \<Rightarrow> (c # s) # ss))"

text \<open>\<open>segs.join('/')\<close>.\<close>

fun join_segs :: "string list \<Rightarrow> string" where
  "join_segs [] = []"
| "join_segs [s] = s"
| "join_segs (s # t # ss) = s @ CHR ''/'' # join_segs (t # ss)"

text \<open>
  One step of \<open>normalizeString\<close>: the segments kept so far are a stack, last segment first.
  An empty segment and \<open>.\<close> are dropped; \<open>..\<close> removes the last kept segment unless there is
  none or it is \<open>..\<close> itself, in which case \<open>..\<close> is kept when the path is relative
  (\<open>allowAboveRoot\<close>) and dropped otherwise; any other segment is kept.
\<close>

definition norm_step :: "bool \<Rightarrow> string list \<Rightarrow> string \<Rightarrow> string list" where
  "norm_step allowAboveRoot res seg =
     (if seg = [] \<or> seg = ''.'' then res
      else if seg = ''..'' then
        (case res of
           [] \<Rightarrow> if allowAboveRoot then [''..''] else []
         | t # ts \<Rightarrow> if t = ''..'' then (if allowAboveRoot then ''..'' # res else res) else ts)
      else seg # res)"

definition normalizeString :: "string \<Rightarrow> bool \<Rightarrow> string" where
  "normalizeString path allowAboveRoot =
     join_segs (rev (foldl (norm_step allowAboveRoot) [] (split_path path)))"

definition isAbsolute :: "string \<Rightarrow> bool" where
  "isAbsolute path = (case path of [] \<Rightarrow> False | c # _ \<Rightarrow> c = CHR ''/'')"

definition trailingSeparator :: "string \<Rightarrow> bool" where
  "trailingSeparator path = (path \<noteq> [] \<and> last path = CHR ''/'')"

text \<open>\<open>path.normalize\<close>.\<close>

definition normalize :: "string \<Rightarrow> string" where
  "normalize path =
     (if path = [] then ''.''
      else
        let res = normalizeString path (\<not> isAbsolute path) in
        if res = [] then
          (if isAbsolute path then ''/'' else if trailingSeparator path then ''./'' else ''.'')
        else
          (if isAbsolute path then ''/'' else []) @ res @
          (if trailingSeparator path then ''/'' else []))"

text \<open>\<open>path.join(...args)\<close>: the non-empty arguments joined by \<open>/\<close>, then normalized.\<close>

definition path_join :: "string list \<Rightarrow> string" where
  "path_join args =
     (let parts = filter (\<lambda>a. a \<noteq> []) args in
      if parts = [] then ''.'' else normalize (join_segs parts))"

text \<open>
  \<open>path.extname\<close>: from the last \<open>.\<close> of the last path component to its end; empty when
  that component has no dot, starts with its only candidate dot, or is \<open>..\<close>. Trailing
  separators are ignored.
\<close>

definition basename_of :: "string \<Rightarrow> string" where
  "basename_of path =
     rev (takeWhile (\<lambda>c. c \<noteq> CHR ''/'') (dropWhile (\<lambda>c. c = CHR ''/'') (rev path)))"

definition extname :: "string \<Rightarrow> string" where
  "extname path =
     (let base = basename_of path;
          ext = CHR ''.'' # rev (takeWhile (\<lambda>c. c \<noteq> CHR ''.'') (rev base))
      in if CHR ''.'' \<notin> set base \<or> length base = length ext \<or> base = ''..'' then []
         else ext)"

subsection \<open>Configuration: hosts.js and types.js\<close>

text \<open>
  The two tables are required from files of their own; they are parameters here.
  A host has a document root and a flag for branch prefixes. A file type has a MIME type
  and an optional list of encodings, each with the name the client announces and the
  extension of the pre-built file.
\<close>

record host =
  root :: string
  branches :: bool

record encoding =
  name :: string
  extension :: string

record fileTypeEntry =
  entryType :: string
  entryEncodings :: "encoding list option"

record fileType =
  mimeType :: string
  encodings :: "encoding list"

record config =
  hosts :: "string \<rightharpoonup> host"
  fileTypes :: "string \<rightharpoonup> fileTypeEntry"

text \<open>Start-up, first loop: \<open>host.root = path.join(host.root, '/')\<close> for every host.\<close>

definition normalizeRoot :: "host \<Rightarrow> host" where
  "normalizeRoot h = h\<lparr>root := path_join [root h, ''/'']\<rparr>"

definition loadedHosts :: "config \<Rightarrow> string \<rightharpoonup> host" where
  "loadedHosts cfg = (\<lambda>hostname. map_option normalizeRoot (hosts cfg hostname))"

text \<open>Start-up, second loop: \<open>if (!fileType.encodings) fileType.encodings = []\<close>.\<close>

definition setOptional :: "fileTypeEntry \<Rightarrow> fileType" where
  "setOptional e =
     \<lparr>mimeType = entryType e,
      encodings = (case entryEncodings e of None \<Rightarrow> [] | Some es \<Rightarrow> es)\<rparr>"

definition loadedFileTypes :: "config \<Rightarrow> string \<rightharpoonup> fileType" where
  "loadedFileTypes cfg = (\<lambda>ext. map_option setOptional (fileTypes cfg ext))"

subsection \<open>Requests, responses, the file system\<close>

text \<open>
  \<open>reqAcceptsEncodings\<close> is the array \<open>req.acceptsEncodings()\<close> returns, in the client's
  order of preference. \<open>reqHostname\<close> is \<open>req.hostname\<close> as a property key.
\<close>

record request =
  reqMethod :: string
  reqHostname :: string
  reqPath :: string
  reqAcceptsEncodings :: "string list"

text \<open>
  A header value is a text or a date rendered by \<open>toUTCString\<close>; times are milliseconds.
  The header map holds the values the handlers pass to \<open>res\<close>.
\<close>

datatype header_value = Text string | HttpDate nat

type_synonym headers = "string \<rightharpoonup> header_value"

record response =
  status :: nat
  headers :: headers
  body :: string

text \<open>\<open>fs.Stats\<close>: what \<open>isFile()\<close> and \<open>isDirectory()\<close> answer, and \<open>mtime\<close>.\<close>

datatype file_kind = RegularFile | Directory | OtherKind

record stats =
  kind :: file_kind
  mtime :: nat

definition isFile :: "stats \<Rightarrow> bool" where
  "isFile st = (kind st = RegularFile)"

definition isDirectory :: "stats \<Rightarrow> bool" where
  "isDirectory st = (kind st = Directory)"

text \<open>
  \<open>statFile\<close> and \<open>readFile\<close> are the promisified \<open>fs.stat\<close> and \<open>fs.readFile\<close>; \<open>None\<close> is
  a rejected promise. The two are independent, so a file that \<open>statFile\<close> reports can be
  gone when it is read.
\<close>

record filesystem =
  statFile :: "string \<Rightarrow> stats option"
  readFile :: "string \<Rightarrow> string option"

datatype fs_call = Stat string | Read string

fun call_path :: "fs_call \<Rightarrow> string" where
  "call_path (Stat p) = p"
| "call_path (Read p) = p"

subsection \<open>safeJoin, findFile, getFileType, chooseEncoding\<close>

text \<open>
  \<open>newPath.indexOf(root) !== 0\<close> holds exactly when the root is not a prefix of \<open>newPath\<close>.
  (The parameter is \<open>rootDir\<close> here, \<open>root\<close> being the field of a host.)
\<close>

definition safeJoin :: "string \<Rightarrow> string \<Rightarrow> string option" where
  "safeJoin rootDir file =
     (let newPath = path_join [rootDir, file] in
      if \<not> prefix rootDir newPath then None else Some newPath)"

text \<open>The object \<open>{path, stat}\<close> that \<open>findFile\<close> returns; \<open>None\<close> is \<open>null\<close>.\<close>

record found_file =
  path :: string
  stat :: stats

definition findFile :: "filesystem \<Rightarrow> string \<Rightarrow> found_file option \<times> fs_call list" where
  "findFile fs file =
     (case statFile fs file of
        None \<Rightarrow> (None, [Stat file])
      | Some st \<Rightarrow>
          if isDirectory st then
            (let indexFile = path_join [file, ''index.html''] in
             case statFile fs indexFile of
               None \<Rightarrow> (None, [Stat file, Stat indexFile])
             | Some indexStat \<Rightarrow>
                 if isFile indexStat
                 then (Some \<lparr>path = indexFile, stat = indexStat\<rparr>, [Stat file, Stat indexFile])
                 else (None, [Stat file, Stat indexFile]))
          else if isFile st then (Some \<lparr>path = file, stat = st\<rparr>, [Stat file])
          else (None, [Stat file]))"

definition getFileType :: "(string \<rightharpoonup> fileType) \<Rightarrow> string \<Rightarrow> fileType option" where
  "getFileType types file = types (extname file)"

text \<open>The object \<open>{name, path, stat}\<close> that \<open>chooseEncoding\<close> returns.\<close>

record chosen_encoding = found_file +
  chosenName :: string

fun chooseEncoding ::
  "filesystem \<Rightarrow> string list \<Rightarrow> encoding list \<Rightarrow> string \<Rightarrow> chosen_encoding option \<times> fs_call list"
where
  "chooseEncoding fs acceptedEncodings [] filePath = (None, [])"
| "chooseEncoding fs acceptedEncodings (e # fileEncodings) filePath =
     (if name e \<notin> set acceptedEncodings
      then chooseEncoding fs acceptedEncodings fileEncodings filePath
      else
        let encodedFilePath = filePath @ ''.'' @ extension e;
            rest = chooseEncoding fs acceptedEncodings fileEncodings filePath
        in case statFile fs encodedFilePath of
             None \<Rightarrow> (fst rest, Stat encodedFilePath # snd rest)
           | Some encodedFileStat \<Rightarrow>
               if isFile encodedFileStat
               then (Some \<lparr>path = encodedFilePath, stat = encodedFileStat, chosenName = name e\<rparr>,
                     [Stat encodedFilePath])
               else (fst rest, Stat encodedFilePath # snd rest))"

subsection \<open>The regular expressions of the handlers\<close>

text \<open>Character classes: \<open>\d\<close>, \<open>\w\<close>, the branch class \<open>[\w\d_-]\<close> and the class
  \<open>[a-zA-Z0-9.\-\/~]\<close> of the file handler.\<close>

definition is_digit :: "char \<Rightarrow> bool" where
  "is_digit c = (CHR ''0'' \<le> c \<and> c \<le> CHR ''9'')"

definition is_lower :: "char \<Rightarrow> bool" where
  "is_lower c = (CHR ''a'' \<le> c \<and> c \<le> CHR ''z'')"

definition is_upper :: "char \<Rightarrow> bool" where
  "is_upper c = (CHR ''A'' \<le> c \<and> c \<le> CHR ''Z'')"

definition is_word :: "char \<Rightarrow> bool" where
  "is_word c = (is_lower c \<or> is_upper c \<or> is_digit c \<or> c = CHR ''_'')"

definition branch_char :: "char \<Rightarrow> bool" where
  "branch_char c = (is_word c \<or> is_digit c \<or> c = CHR ''_'' \<or> c = CHR ''-'')"

definition path_char :: "char \<Rightarrow> bool" where
  "path_char c =
     (is_lower c \<or> is_upper c \<or> is_digit c \<or> c = CHR ''.'' \<or> c = CHR ''-'' \<or>
      c = CHR ''/'' \<or> c = CHR ''~'')"

text \<open>The flag \<open>i\<close>: two characters match when their upper-case forms are equal.\<close>

definition canonicalize :: "char \<Rightarrow> char" where
  "canonicalize c = (if is_lower c then char_of (of_char c - (32::nat)) else c)"

text \<open>
  \<open>path.match(/^\/([\w\d_-]+)\//)\<close>, capture group 1. The class excludes the slash, so the
  group is the whole run of class characters after the first slash.
\<close>

definition branchMatch :: "string \<Rightarrow> string option" where
  "branchMatch p =
     (case p of
        [] \<Rightarrow> None
      | c # cs \<Rightarrow>
          if c \<noteq> CHR ''/'' then None
          else
            let branchName = takeWhile branch_char cs in
            (case dropWhile branch_char cs of
               [] \<Rightarrow> None
             | d # _ \<Rightarrow> if branchName \<noteq> [] \<and> d = CHR ''/'' then Some branchName else None))"

text \<open>\<open>\/?$\<close>: nothing, or one slash, up to the end of the input.\<close>

definition slash_end :: "string \<Rightarrow> bool" where
  "slash_end s = (s = [] \<or> s = ''/'')"

text \<open>\<open>/^\/(?:\d+\/?)?$/.test(path)\<close>.\<close>

definition indexAlias :: "string \<Rightarrow> bool" where
  "indexAlias p =
     (case p of
        [] \<Rightarrow> False
      | c # cs \<Rightarrow>
          c = CHR ''/'' \<and>
          (cs = [] \<or> (takeWhile is_digit cs \<noteq> [] \<and> slash_end (dropWhile is_digit cs))))"

text \<open>\<open>word\/?$\<close> under the flag \<open>i\<close>.\<close>

definition word_end :: "string \<Rightarrow> string \<Rightarrow> bool" where
  "word_end word s =
     (map canonicalize (take (length word) s) = map canonicalize word \<and>
      slash_end (drop (length word) s))"

text \<open>\<open>/^\/(?:\d+\/)?word\/?$/i.test(path)\<close>, for the words \<open>editor\<close> and \<open>fullscreen\<close>.\<close>

definition wordAlias :: "string \<Rightarrow> string \<Rightarrow> bool" where
  "wordAlias word p =
     (case p of
        [] \<Rightarrow> False
      | c # cs \<Rightarrow>
          c = CHR ''/'' \<and>
          (word_end word cs \<or>
           (takeWhile is_digit cs \<noteq> [] \<and>
            (case dropWhile is_digit cs of
               [] \<Rightarrow> False
             | d # ds \<Rightarrow> d = CHR ''/'' \<and> word_end word ds))))"

subsection \<open>The host middleware\<close>

text \<open>What the middleware leaves on \<open>req\<close>: \<open>req.logicalPath\<close> (\<open>None\<close> when it is not set)
  and \<open>req.root\<close>.\<close>

record routed =
  logicalPath :: "string option"
  reqRoot :: string

definition invalidHost :: response where
  "invalidHost =
     \<lparr>status = 400, headers = [''Content-Type'' \<mapsto> Text ''text/plain''],
      body = ''Invalid Host''\<rparr>"

text \<open>The branch step: the prefix and the path that remains.\<close>

definition stripBranch :: "bool \<Rightarrow> string \<Rightarrow> string \<times> string" where
  "stripBranch branchesOn p =
     (if branchesOn then
        (case branchMatch p of
           None \<Rightarrow> ([], p)
         | Some branchName \<Rightarrow>
             (let pre = ''/'' @ branchName in (pre, drop (length pre) p)))
      else ([], p))"

definition hostMiddleware :: "(string \<rightharpoonup> host) \<Rightarrow> request \<Rightarrow> response + routed" where
  "hostMiddleware hs req =
     (case hs (reqHostname req) of
        None \<Rightarrow> Inl invalidHost
      | Some h \<Rightarrow>
          (case stripBranch (branches h) (reqPath req) of
             (pre, p) \<Rightarrow>
               Inr \<lparr>logicalPath =
                      (if indexAlias p then Some (pre @ ''/index.html'')
                       else if wordAlias ''editor'' p then Some (pre @ ''/editor.html'')
                       else if wordAlias ''fullscreen'' p then Some (pre @ ''/fullscreen.html'')
                       else None),
                    reqRoot = root h\<rparr>))"

subsection \<open>The Cache-Control routes\<close>

text \<open>
  \<open>app.get('/js/*', ...)\<close> and its two siblings, with case-insensitive routing: the route
  matches the paths that begin with the text before the star.
\<close>

definition routeMatches :: "string \<Rightarrow> string \<Rightarrow> bool" where
  "routeMatches pre p = (map canonicalize (take (length pre) p) = map canonicalize pre)"

definition cacheControlRoutes :: "string \<Rightarrow> headers \<Rightarrow> headers" where
  "cacheControlRoutes p h0 =
     (let h1 = (if routeMatches ''/js/'' p
                then h0(''Cache-Control'' \<mapsto> Text ''public, max-age=315360000, immutable'')
                else h0);
          h2 = (if routeMatches ''/static/assets/'' p
                then h1(''Cache-Control'' \<mapsto> Text ''public, max-age=315360000, immutable'')
                else h1)
      in if routeMatches ''/static/blocks-media/'' p
         then h2(''Cache-Control'' \<mapsto> Text ''public, max-age=3600, immutable'')
         else h2)"

subsection \<open>The file handler\<close>

text \<open>
  A handler sends a response, calls \<open>next()\<close>, or throws; \<open>express-async-handler\<close> passes a
  thrown error to \<open>next(err)\<close>.
\<close>

datatype outcome = Sent response | Next | Throw

text \<open>\<open>req.logicalPath || req.path\<close>.\<close>

definition pathNameOf :: "request \<Rightarrow> routed \<Rightarrow> string" where
  "pathNameOf req rt = (case logicalPath rt of Some l \<Rightarrow> l | None \<Rightarrow> reqPath req)"

text \<open>\<open>/[^a-zA-Z0-9.\-\/~]/.test(pathName)\<close>.\<close>

definition forbiddenChar :: "string \<Rightarrow> bool" where
  "forbiddenChar pathName = (\<exists>c \<in> set pathName. \<not> path_char c)"

text \<open>The headers of a file response, set after the file has been read, in the order of
  the source.\<close>

definition fileHeaders :: "headers \<Rightarrow> fileType \<Rightarrow> nat \<Rightarrow> string option \<Rightarrow> headers" where
  "fileHeaders h0 ft fileLastModified contentEncoding =
     (let h1 = h0(''Content-Type'' \<mapsto> Text (mimeType ft));
          h2 = h1(''Last-Modified'' \<mapsto> HttpDate fileLastModified);
          h3 = (case contentEncoding of
                  None \<Rightarrow> h2
                | Some enc \<Rightarrow> h2(''Content-Encoding'' \<mapsto> Text enc));
          h4 = (if encodings ft \<noteq> [] then h3(''Vary'' \<mapsto> Text ''Accept-Encoding'') else h3)
      in if h4 ''Cache-Control'' = None then h4(''Cache-Control'' \<mapsto> Text ''no-cache'') else h4)"

text \<open>
  From \<open>const fileLastModified = fileStat.mtime\<close> to \<open>res.send(contents)\<close>: the type lookup,
  the choice of an encoding, the read and the response.
\<close>

definition sendFile ::
  "(string \<rightharpoonup> fileType) \<Rightarrow> filesystem \<Rightarrow> request \<Rightarrow> headers \<Rightarrow> found_file \<Rightarrow>
   outcome \<times> fs_call list"
where
  "sendFile types fs req h0 found =
     (let fileLastModified = mtime (stat found) in
      case getFileType types (path found) of
        None \<Rightarrow> (Next, [])
      | Some ft \<Rightarrow>
          (case (if encodings ft \<noteq> []
                 then chooseEncoding fs (reqAcceptsEncodings req) (encodings ft) (path found)
                 else (None, [])) of
             (bestEncoding, calls) \<Rightarrow>
               (let filePath = (case bestEncoding of None \<Rightarrow> path found | Some b \<Rightarrow> path b);
                    contentEncoding = map_option chosenName bestEncoding
                in case readFile fs filePath of
                     None \<Rightarrow> (Next, calls @ [Read filePath])
                   | Some contents \<Rightarrow>
                       (Sent \<lparr>status = 200,
                              headers = fileHeaders h0 ft fileLastModified contentEncoding,
                              body = contents\<rparr>,
                        calls @ [Read filePath]))))"

text \<open>
  The handler of \<open>app.get('/*')\<close>. The result of \<open>findFile\<close> is destructured before it is
  tested, and destructuring \<open>null\<close> throws a TypeError.
\<close>

definition fileHandler ::
  "(string \<rightharpoonup> fileType) \<Rightarrow> filesystem \<Rightarrow> request \<Rightarrow> routed \<Rightarrow> headers \<Rightarrow>
   outcome \<times> fs_call list"
where
  "fileHandler types fs req rt h0 =
     (let pathName = pathNameOf req rt in
      if forbiddenChar pathName then (Next, [])
      else
        case safeJoin (reqRoot rt) pathName of
          None \<Rightarrow> (Next, [])
        | Some requestPathName \<Rightarrow>
            (case findFile fs requestPathName of
               (None, calls) \<Rightarrow> (Throw, calls)
             | (Some found, calls) \<Rightarrow>
                 (case sendFile types fs req h0 found of
                    (out, calls') \<Rightarrow> (out, calls @ calls'))))"

subsection \<open>The terminal middlewares and the handler chain\<close>

definition notFoundHandler :: "headers \<Rightarrow> response" where
  "notFoundHandler h0 =
     \<lparr>status = 404, headers = h0(''Content-Type'' \<mapsto> Text ''text/plain''),
      body = ''404 Not Found''\<rparr>"

definition errorHandler :: "headers \<Rightarrow> response" where
  "errorHandler h0 =
     \<lparr>status = 500, headers = h0(''Content-Type'' \<mapsto> Text ''text/plain''),
      body = ''Internal server error''\<rparr>"

text \<open>\<open>app.get\<close> routes see the requests of method GET and, no HEAD route being
  registered, HEAD.\<close>

definition routedAsGet :: "string \<Rightarrow> bool" where
  "routedAsGet m = (m = ''GET'' \<or> m = ''HEAD'')"

subsection \<open>The router and its route parameters\<close>

text \<open>
  When the pattern of a route matches the path, the router decodes the text matched by
  the star with \<open>decodeURIComponent\<close> before it looks at the method. That function throws
  a URIError on a percent sign that is not followed by two hexadecimal digits, and on
  escaped octets of 128 and above that are not the UTF-8 encoding of a code point.
  \<open>uriError octets pending s\<close> scans \<open>s\<close> with the octets of an unfinished code point and
  the number of continuation octets still due.
\<close>

definition hexDigit :: "char \<Rightarrow> bool" where
  "hexDigit c =
     (is_digit c \<or> (CHR ''a'' \<le> c \<and> c \<le> CHR ''f'') \<or> (CHR ''A'' \<le> c \<and> c \<le> CHR ''F''))"

definition hexValue :: "char \<Rightarrow> nat" where
  "hexValue c =
     (if is_digit c then of_char c - 48
      else if CHR ''a'' \<le> c \<and> c \<le> CHR ''f'' then of_char c - 87
      else of_char c - 55)"

text \<open>The number of continuation octets a first octet of 128 or more announces; 0 when
  the octet cannot come first (a continuation octet, or more than four octets).\<close>

definition continuationCount :: "nat \<Rightarrow> nat" where
  "continuationCount b =
     (if 192 \<le> b \<and> b < 224 then 1
      else if 224 \<le> b \<and> b < 240 then 2
      else if 240 \<le> b \<and> b < 248 then 3
      else 0)"

definition continuationOctet :: "nat \<Rightarrow> bool" where
  "continuationOctet b = (128 \<le> b \<and> b < 192)"

text \<open>Well-formed UTF-8 for one code point of two, three or four octets: no overlong
  form, no surrogate, nothing above U+10FFFF.\<close>

fun validUtf8 :: "nat list \<Rightarrow> bool" where
  "validUtf8 [b0, b1] = (194 \<le> b0 \<and> b0 < 224 \<and> continuationOctet b1)"
| "validUtf8 [b0, b1, b2] =
     (((b0 = 224 \<and> 160 \<le> b1 \<and> b1 < 192) \<or>
       (225 \<le> b0 \<and> b0 < 237 \<and> continuationOctet b1) \<or>
       (b0 = 237 \<and> 128 \<le> b1 \<and> b1 < 160) \<or>
       (238 \<le> b0 \<and> b0 < 240 \<and> continuationOctet b1)) \<and>
      continuationOctet b2)"
| "validUtf8 [b0, b1, b2, b3] =
     (((b0 = 240 \<and> 144 \<le> b1 \<and> b1 < 192) \<or>
       (241 \<le> b0 \<and> b0 < 244 \<and> continuationOctet b1) \<or>
       (b0 = 244 \<and> 128 \<le> b1 \<and> b1 < 144)) \<and>
      continuationOctet b2 \<and> continuationOctet b3)"
| "validUtf8 _ = False"

fun uriError :: "nat list \<Rightarrow> nat \<Rightarrow> string \<Rightarrow> bool" where
  "uriError octets pending [] = (0 < pending)"
| "uriError octets pending (c # cs) =
     (if c = CHR ''%'' then
        (case cs of
           h1 # h2 # rest \<Rightarrow>
             if \<not> (hexDigit h1 \<and> hexDigit h2) then True
             else
               (let b = 16 * hexValue h1 + hexValue h2 in
                if pending = 0 then
                  (if b < 128 then uriError [] 0 rest
                   else if continuationCount b = 0 then True
                   else uriError [b] (continuationCount b) rest)
                else if pending = 1 then
                  (if validUtf8 (octets @ [b]) then uriError [] 0 rest else True)
                else uriError (octets @ [b]) (pending - 1) rest)
         | _ \<Rightarrow> True)
      else if 0 < pending then True
      else uriError [] 0 cs)"

text \<open>\<open>decodeURIComponent(s)\<close> throws.\<close>

definition decodeFails :: "string \<Rightarrow> bool" where
  "decodeFails s = uriError [] 0 s"

text \<open>
  The route \<open>/*\<close> matches every path, and its parameter is the path after the first
  slash; the parameters of the three Cache-Control routes are ends of it, after a
  beginning without a percent sign, so they fail to decode exactly when it does. The
  router then holds the error, skips the routes that follow, and the 404 middleware,
  which takes no error, passes it on to the error middleware.
\<close>

definition paramError :: "string \<Rightarrow> bool" where
  "paramError p = decodeFails (drop 1 p)"

text \<open>
  One request through the chain: the response and the file system calls made for it.
  After the host middleware, a request whose route parameter cannot be decoded reaches
  the error middleware without any route handler having run. Otherwise a request that
  is not routed as GET reaches the 404 middleware; \<open>next()\<close> in the file handler reaches
  the 404 middleware; a thrown error skips it and reaches the error middleware.
\<close>

definition serve :: "config \<Rightarrow> filesystem \<Rightarrow> request \<Rightarrow> response \<times> fs_call list" where
  "serve cfg fs req =
     (case hostMiddleware (loadedHosts cfg) req of
        Inl resp \<Rightarrow> (resp, [])
      | Inr rt \<Rightarrow>
          if paramError (reqPath req) then (errorHandler Map.empty, [])
          else if \<not> routedAsGet (reqMethod req) then (notFoundHandler Map.empty, [])
          else
            (let h0 = cacheControlRoutes (reqPath req) Map.empty in
             case fileHandler (loadedFileTypes cfg) fs req rt h0 of
               (Sent resp, calls) \<Rightarrow> (resp, calls)
             | (Next, calls) \<Rightarrow> (notFoundHandler h0, calls)
             | (Throw, calls) \<Rightarrow> (errorHandler h0, calls)))"

subsection \<open>Normal forms of paths\<close>

text \<open>
  The shape of a normalized path, for the proofs: a stack of kept segments (last first) is
  \<open>good\<close> when its \<open>..\<close> segments are all at the bottom and allowed, and every other
  segment is non-empty, not \<open>.\<close> and free of separators; \<open>render\<close> writes such a stack
  the way \<open>normalize\<close> does.
\<close>

fun good :: "bool \<Rightarrow> string list \<Rightarrow> bool" where
  "good a [] = True"
| "good a (t # ts) =
     (if t = ''..'' then a \<and> (\<forall>x \<in> set ts. x = ''..'')
      else t \<noteq> [] \<and> t \<noteq> ''.'' \<and> CHR ''/'' \<notin> set t \<and> good a ts)"

definition render :: "bool \<Rightarrow> bool \<Rightarrow> string list \<Rightarrow> string" where
  "render ab tr st =
     (if st = [] then (if ab then ''/'' else if tr then ''./'' else ''.'')
      else (if ab then ''/'' else []) @ join_segs (rev st) @ (if tr then ''/'' else []))"

subsection \<open>Encoding negotiation in the words of its description\<close>


subsection \<open>The alias rules in the words of their description\<close>

text \<open>
  A path is an index path when it is \<open>/\<close>, or \<open>/\<close> followed by one or more digits and
  an optional slash. It is a word path for \<open>editor\<close> (or \<open>fullscreen\<close>) when it is a slash,
  an optional segment of digits with its slash, the word in any mix of upper and lower
  case, and an optional slash.
\<close>

definition specIndexPath :: "string \<Rightarrow> bool" where
  "specIndexPath p =
     (p = ''/'' \<or>
      (\<exists>ds. ds \<noteq> [] \<and> (\<forall>c \<in> set ds. is_digit c) \<and>
            (p = ''/'' @ ds \<or> p = ''/'' @ ds @ ''/'')))"

definition specWordPath :: "string \<Rightarrow> string \<Rightarrow> bool" where
  "specWordPath word p =
     (\<exists>w sl. map canonicalize w = map canonicalize word \<and> (sl = [] \<or> sl = ''/'') \<and>
            (p = ''/'' @ w @ sl \<or>
             (\<exists>ds. ds \<noteq> [] \<and> (\<forall>c \<in> set ds. is_digit c) \<and> p = ''/'' @ ds @ ''/'' @ w @ sl)))"

subsection \<open>A configuration and a file system for the examples\<close>

text \<open>
  Two hosts, one with branch prefixes; HTML files have a gzip and a Brotli variant, in
  that order of preference, PNG files have none. The disk holds a directory with an
  index file and its Brotli variant, an empty directory, an image, a page with both
  variants, and the index file of a branch whose name has an underscore.
\<close>

definition exampleConfig :: config where
  "exampleConfig =
     \<lparr>hosts =
        [''example.com'' \<mapsto> \<lparr>root = ''/var/www'', branches = True\<rparr>,
         ''plain.example'' \<mapsto> \<lparr>root = ''/srv/site'', branches = False\<rparr>],
      fileTypes =
        [''.html'' \<mapsto>
           \<lparr>entryType = ''text/html'',
            entryEncodings = Some [\<lparr>name = ''gzip'', extension = ''gz''\<rparr>,
                                   \<lparr>name = ''br'', extension = ''br''\<rparr>]\<rparr>,
         ''.png'' \<mapsto> \<lparr>entryType = ''image/png'', entryEncodings = None\<rparr>]\<rparr>"

definition exampleFs :: filesystem where
  "exampleFs =
     \<lparr>statFile =
        [''/srv/site/blog/'' \<mapsto> \<lparr>kind = Directory, mtime = 5\<rparr>,
         ''/srv/site/blog/index.html'' \<mapsto> \<lparr>kind = RegularFile, mtime = 7\<rparr>,
         ''/srv/site/blog/index.html.br'' \<mapsto> \<lparr>kind = RegularFile, mtime = 9\<rparr>,
         ''/srv/site/empty/'' \<mapsto> \<lparr>kind = Directory, mtime = 2\<rparr>,
         ''/srv/site/logo.png'' \<mapsto> \<lparr>kind = RegularFile, mtime = 3\<rparr>,
         ''/srv/site/both.html'' \<mapsto> \<lparr>kind = RegularFile, mtime = 20\<rparr>,
         ''/srv/site/both.html.gz'' \<mapsto> \<lparr>kind = RegularFile, mtime = 21\<rparr>,
         ''/srv/site/both.html.br'' \<mapsto> \<lparr>kind = RegularFile, mtime = 22\<rparr>,
         ''/var/www/my_branch/index.html'' \<mapsto> \<lparr>kind = RegularFile, mtime = 11\<rparr>],
      readFile =
        [''/srv/site/blog/index.html'' \<mapsto> ''<html>blog</html>'',
         ''/srv/site/blog/index.html.br'' \<mapsto> ''brotli bytes'',
         ''/srv/site/logo.png'' \<mapsto> ''png bytes'',
         ''/srv/site/both.html'' \<mapsto> ''<html>both</html>'',
         ''/srv/site/both.html.gz'' \<mapsto> ''gzip bytes of both'',
         ''/srv/site/both.html.br'' \<mapsto> ''brotli bytes of both'',
         ''/var/www/my_branch/index.html'' \<mapsto> ''<html>branch</html>'']\<rparr>"

definition exampleGet :: "string \<Rightarrow> string \<Rightarrow> string list \<Rightarrow> request" where
  "exampleGet hostname p accepted =
     \<lparr>reqMethod = ''GET'', reqHostname = hostname, reqPath = p,
      reqAcceptsEncodings = accepted\<rparr>"

section \<open>Properties\<close>

subsection \<open>Paths: split, join and normal forms\<close>

lemma split_path_nonempty: "split_path s \<noteq> []"
  by (induction s) (auto split: list.splits)

lemma split_path_no_slash: "CHR ''/'' \<notin> set s \<Longrightarrow> split_path s = [s]"
  by (induction s) auto

lemma split_path_append: "split_path (a @ CHR ''/'' # b) = split_path a @ split_path b"
  using split_path_nonempty by (induction a) (auto split: list.splits)

lemma split_path_segs: "seg \<in> set (split_path s) \<Longrightarrow> CHR ''/'' \<notin> set seg"
  by (induction s arbitrary: seg) (auto split: list.splits if_splits)

lemma join_segs_snoc: "join_segs (ss @ [s]) = (if ss = [] then s else join_segs ss @ CHR ''/'' # s)"
  by (induction ss rule: join_segs.induct) auto

lemma split_join: "ss \<noteq> [] \<Longrightarrow> \<forall>s \<in> set ss. CHR ''/'' \<notin> set s \<Longrightarrow> split_path (join_segs ss) = ss"
  by (induction ss rule: join_segs.induct) (auto simp: split_path_no_slash split_path_append)

lemma good_all_dots: "\<forall>x \<in> set ts. x = ''..'' \<Longrightarrow> a \<Longrightarrow> good a ts"
  by (induction ts) auto

lemma good_tail: "good a (t # ts) \<Longrightarrow> good a ts"
  by (auto simp: good_all_dots split: if_splits)

lemma good_step: "good a st \<Longrightarrow> CHR ''/'' \<notin> set seg \<Longrightarrow> good a (norm_step a st seg)"
  by (cases st) (auto simp: norm_step_def good_all_dots split: if_splits)

lemma good_foldl: "good a st \<Longrightarrow> \<forall>s \<in> set segs. CHR ''/'' \<notin> set s \<Longrightarrow> good a (foldl (norm_step a) st segs)"
  by (induction segs arbitrary: st) (auto simp: good_step)

lemma good_no_slash: "good a st \<Longrightarrow> s \<in> set st \<Longrightarrow> CHR ''/'' \<notin> set s \<and> s \<noteq> []"
proof (induction st)
  case Nil
  then show ?case by simp
next
  case (Cons t ts)
  show ?case
  proof (cases "t = ''..''")
    case True
    with Cons.prems have "s = ''..''" by auto
    then show ?thesis by simp
  next
    case False
    with Cons.prems have "t \<noteq> [] \<and> CHR ''/'' \<notin> set t \<and> good a ts" by simp
    with Cons.IH Cons.prems(2) show ?thesis by auto
  qed
qed

lemma replay_step: "good a (t # ts) \<Longrightarrow> norm_step a ts t = t # ts"
  by (cases ts) (auto simp: norm_step_def split: if_splits)

lemma replay: "good a st \<Longrightarrow> foldl (norm_step a) [] (rev st) = st"
proof (induction st)
  case Nil
  then show ?case by simp
next
  case (Cons t ts)
  from Cons.prems have "good a ts" by (rule good_tail)
  with Cons.IH have "foldl (norm_step a) [] (rev ts) = ts" by simp
  with Cons.prems show ?case by (simp add: replay_step)
qed

lemma join_segs_empty_iff: "good a st \<Longrightarrow> join_segs (rev st) = [] \<longleftrightarrow> st = []"
proof (cases st)
  case Nil then show ?thesis by simp
next
  case (Cons t ts)
  assume g: "good a st"
  with Cons have "t \<noteq> []" by (auto split: if_splits)
  then have "join_segs (rev ts @ [t]) \<noteq> []" by (simp add: join_segs_snoc)
  with Cons show ?thesis by simp
qed



lemma normalize_render:
  "x \<noteq> [] \<Longrightarrow> normalize x =
     render (isAbsolute x) (trailingSeparator x)
       (foldl (norm_step (\<not> isAbsolute x)) [] (split_path x))"
proof -
  let ?st = "foldl (norm_step (\<not> isAbsolute x)) [] (split_path x)"
  assume ne: "x \<noteq> []"
  have "good (\<not> isAbsolute x) ?st"
    by (rule good_foldl) (auto dest: split_path_segs)
  then have "join_segs (rev ?st) = [] \<longleftrightarrow> ?st = []" by (rule join_segs_empty_iff)
  then show ?thesis using ne
    unfolding normalize_def normalizeString_def render_def Let_def by simp
qed

lemma normal_form: "\<exists>ab tr st. good (\<not> ab) st \<and> normalize x = render ab tr st"
proof (cases "x = []")
  case True
  have "good (\<not> False) [] \<and> normalize x = render False False []"
    using True by (simp add: normalize_def render_def)
  then show ?thesis by blast
next
  case False
  have "good (\<not> isAbsolute x) (foldl (norm_step (\<not> isAbsolute x)) [] (split_path x))"
    by (rule good_foldl) (auto dest: split_path_segs)
  with normalize_render [OF False] show ?thesis by blast
qed

lemma path_join_normal_form: "\<exists>ab tr st. good (\<not> ab) st \<and> path_join args = render ab tr st"
proof (cases "filter (\<lambda>a. a \<noteq> []) args = []")
  case True
  have "good (\<not> False) [] \<and> path_join args = render False False []"
    using True by (simp add: path_join_def render_def)
  then show ?thesis by blast
next
  case False
  then show ?thesis using normal_form by (simp add: path_join_def)
qed

lemma foldl_skip_empty: "foldl (norm_step a) st ([] # segs) = foldl (norm_step a) st segs"
  by (simp add: norm_step_def)

lemma split_path_snoc_slash: "split_path (s @ ''/'') = split_path s @ [[]]"
  using split_path_append [of s "[]"] by simp

lemma split_path_cons_slash: "split_path (CHR ''/'' # s) = [] # split_path s"
  by simp

lemma foldl_snoc_empty: "foldl (norm_step a) st (segs @ [[]]) = foldl (norm_step a) st segs"
  by (simp add: norm_step_def)

lemma replay_join:
  assumes "good a st" "st \<noteq> []"
  shows "foldl (norm_step a) [] (split_path (join_segs (rev st))) = st"
proof -
  have "split_path (join_segs (rev st)) = rev st"
    using assms by (intro split_join) (auto dest: good_no_slash)
  with replay [OF assms(1)] show ?thesis by simp
qed

lemma replay_render:
  assumes "good (\<not> ab) st"
  shows "foldl (norm_step (\<not> ab)) [] (split_path (render ab tr st)) = st"
proof (cases "st = []")
  case True
  then show ?thesis by (simp add: render_def norm_step_def)
next
  case False
  note rj = replay_join [OF assms False]
  show ?thesis
  proof (cases ab)
    case True
    show ?thesis
    proof (cases tr)
      case True
      have "render ab tr st = CHR ''/'' # (join_segs (rev st) @ ''/'')"
        using \<open>ab\<close> True False by (simp add: render_def)
      then show ?thesis using rj
        by (simp only: split_path_cons_slash split_path_snoc_slash foldl_skip_empty foldl_snoc_empty)
    next
      case tr: False
      have "render ab tr st = CHR ''/'' # join_segs (rev st)"
        using \<open>ab\<close> tr False by (simp add: render_def)
      then show ?thesis using rj
        by (simp only: split_path_cons_slash foldl_skip_empty)
    qed
  next
    case nab: False
    show ?thesis
    proof (cases tr)
      case True
      have "render ab tr st = join_segs (rev st) @ ''/''"
        using nab True False by (simp add: render_def)
      then show ?thesis using rj
        by (simp only: split_path_snoc_slash foldl_snoc_empty)
    next
      case tr: False
      have "render ab tr st = join_segs (rev st)"
        using nab tr False by (simp add: render_def)
      then show ?thesis using rj by simp
    qed
  qed
qed

lemma join_segs_hd:
  assumes "good a st" "st \<noteq> []"
  shows "\<exists>c cs. join_segs (rev st) = c # cs \<and> c \<noteq> CHR ''/''"
proof -
  from assms(2) obtain s ss where r: "rev st = s # ss" by (cases "rev st") auto
  then have "s \<in> set st" by (metis list.set_intros(1) set_rev)
  with assms(1) have "CHR ''/'' \<notin> set s \<and> s \<noteq> []" by (rule good_no_slash)
  then obtain c cs where s: "s = c # cs" "c \<noteq> CHR ''/''" by (cases s) auto
  show ?thesis
  proof (cases ss)
    case Nil
    with r s show ?thesis by simp
  next
    case (Cons t ts)
    with r s show ?thesis by simp
  qed
qed

lemma render_nonempty: "good a st \<Longrightarrow> render ab tr st \<noteq> []"
  using join_segs_empty_iff [of a st] by (simp add: render_def)

lemma isAbsolute_render:
  assumes "good (\<not> ab) st"
  shows "isAbsolute (render ab tr st @ s) = ab"
proof (cases "st = []")
  case True
  then show ?thesis by (simp add: render_def isAbsolute_def)
next
  case False
  from join_segs_hd [OF assms False] obtain c cs
    where "join_segs (rev st) = c # cs" "c \<noteq> CHR ''/''" by blast
  with False show ?thesis by (simp add: render_def isAbsolute_def)
qed

lemma index_render:
  assumes g: "good (\<not> ab) st"
  shows "path_join [render ab tr st, ''index.html''] =
     (if st = [] then (if ab then ''/index.html'' else ''index.html'')
      else (if ab then ''/'' else []) @ join_segs (rev st) @ ''/index.html'')"
proof -
  let ?f = "render ab tr st"
  let ?x = "?f @ CHR ''/'' # ''index.html''"
  have pj: "path_join [?f, ''index.html''] = normalize ?x"
    using render_nonempty [OF g, of ab tr] by (simp add: path_join_def)
  have ne: "?x \<noteq> []" by simp
  have ab: "isAbsolute ?x = ab" using g by (rule isAbsolute_render)
  have tr: "\<not> trailingSeparator ?x" by (simp add: trailingSeparator_def)
  have sp: "split_path ?x = split_path ?f @ [''index.html'']"
    by (simp only: split_path_append) (simp add: split_path_no_slash)
  have st: "foldl (norm_step (\<not> ab)) [] (split_path ?x) = ''index.html'' # st"
    unfolding sp using replay_render [OF g, of tr] by (simp add: norm_step_def)
  have "normalize ?x = render ab False (''index.html'' # st)"
    using normalize_render [OF ne] ab tr st by simp
  also have "\<dots> = (if st = [] then (if ab then ''/index.html'' else ''index.html'')
      else (if ab then ''/'' else []) @ join_segs (rev st) @ ''/index.html'')"
    by (simp add: render_def join_segs_snoc)
  finally show ?thesis using pj by simp
qed


lemma render_trailing: "good a st \<Longrightarrow> \<exists>r. render ab True st = r @ ''/''"
  by (simp add: render_def)

lemma normalizeRoot_trailing: "\<exists>r. path_join [r0, ''/''] = r @ ''/''"
proof -
  let ?x = "join_segs (filter (\<lambda>a. a \<noteq> []) [r0, ''/''])"
  have x: "?x = (if r0 = [] then ''/'' else r0 @ ''//'')" by simp
  then have ne: "?x \<noteq> []" and tr: "trailingSeparator ?x"
    by (auto simp: trailingSeparator_def)
  have pj: "path_join [r0, ''/''] = normalize ?x"
    by (simp add: path_join_def)
  have g: "good (\<not> isAbsolute ?x) (foldl (norm_step (\<not> isAbsolute ?x)) [] (split_path ?x))"
    by (rule good_foldl) (auto dest: split_path_segs)
  have "normalize ?x = render (isAbsolute ?x) True (foldl (norm_step (\<not> isAbsolute ?x)) [] (split_path ?x))"
    using normalize_render [OF ne] tr by simp
  with render_trailing [OF g] pj show ?thesis by metis
qed

lemma index_prefix_render:
  assumes g: "good (\<not> ab) st"
    and r: "rootDir = r @ ''/''"
    and p: "prefix rootDir (render ab tr st)"
    and c: "ab \<or> st \<noteq> []"
  shows "prefix rootDir (path_join [render ab tr st, ''index.html''])"
proof (cases "st = []")
  case True
  with c have ab by simp
  with True p have "prefix rootDir ''/''" by (simp add: render_def)
  with r have "rootDir = ''/''" by (cases r) (auto simp: prefix_Cons)
  then show ?thesis using True \<open>ab\<close> index_render [OF g, of tr] by simp
next
  case False
  show ?thesis
  proof (cases tr)
    case True
    have "path_join [render ab tr st, ''index.html''] = render ab tr st @ ''index.html''"
      unfolding index_render [OF g] using False True by (simp add: render_def)
    with p show ?thesis by (simp add: prefix_prefix)
  next
    case tr: False
    have "path_join [render ab tr st, ''index.html''] = render ab tr st @ ''/index.html''"
      unfolding index_render [OF g] using False tr by (simp add: render_def)
    with p show ?thesis by (simp add: prefix_prefix)
  qed
qed

lemma isAbsolute_prefix: "prefix a b \<Longrightarrow> a \<noteq> [] \<Longrightarrow> isAbsolute b = isAbsolute a"
  by (cases a; cases b) (auto simp: isAbsolute_def)

lemma index_prefix:
  assumes r: "rootDir = r @ ''/''"
    and p: "prefix rootDir (path_join args)"
  shows "isAbsolute rootDir \<or> isAbsolute (path_join [path_join args, ''index.html''])
         \<Longrightarrow> prefix rootDir (path_join [path_join args, ''index.html''])"
proof -
  assume a: "isAbsolute rootDir \<or> isAbsolute (path_join [path_join args, ''index.html''])"
  from path_join_normal_form obtain ab tr st
    where g: "good (\<not> ab) st" and f: "path_join args = render ab tr st" by blast
  have "rootDir \<noteq> []" using r by simp
  with p have "isAbsolute (path_join args) = isAbsolute rootDir" by (rule isAbsolute_prefix)
  moreover have "isAbsolute (path_join args) = ab"
    using isAbsolute_render [OF g, of tr "[]"] f by simp
  ultimately have ra: "isAbsolute rootDir = ab" by simp
  have "ab \<or> st \<noteq> []"
  proof (rule ccontr)
    assume "\<not> (ab \<or> st \<noteq> [])"
    then have "\<not> ab" "st = []" by auto
    then have "path_join [render ab tr st, ''index.html''] = ''index.html''"
      using index_render [OF g, of tr] by simp
    with a ra \<open>\<not> ab\<close> f show False by (simp add: isAbsolute_def)
  qed
  with index_prefix_render [OF g r] p f show ?thesis by simp
qed

subsection \<open>The handler chain\<close>

lemma cacheControlRoutes_other:
  "k \<noteq> ''Cache-Control'' \<Longrightarrow> cacheControlRoutes p h k = h k"
  by (simp add: cacheControlRoutes_def Let_def)

lemma fileHeaders_Last_Modified:
  "fileHeaders h0 ft lm ce ''Last-Modified'' = Some (HttpDate lm)"
  by (simp add: fileHeaders_def Let_def split: option.split)

lemma fileHeaders_Content_Type:
  "fileHeaders h0 ft lm ce ''Content-Type'' = Some (Text (mimeType ft))"
  by (simp add: fileHeaders_def Let_def split: option.split)

lemma fileHeaders_Content_Encoding:
  "fileHeaders h0 ft lm ce ''Content-Encoding'' =
     (case ce of None \<Rightarrow> h0 ''Content-Encoding'' | Some enc \<Rightarrow> Some (Text enc))"
  by (simp add: fileHeaders_def Let_def split: option.split)

lemma fileHeaders_Vary:
  "fileHeaders h0 ft lm ce ''Vary'' =
     (if encodings ft \<noteq> [] then Some (Text ''Accept-Encoding'') else h0 ''Vary'')"
  by (simp add: fileHeaders_def Let_def split: option.split)

lemma chooseEncoding_guard:
  "(if es \<noteq> [] then chooseEncoding fs acc es fp else (None, [])) = chooseEncoding fs acc es fp"
  by (cases es) simp_all

lemma sendFile_Sent:
  assumes "sendFile types fs req h0 found = (Sent resp, calls)"
  shows "\<exists>ft best calls2 contents.
           getFileType types (path found) = Some ft \<and>
           chooseEncoding fs (reqAcceptsEncodings req) (encodings ft) (path found) = (best, calls2) \<and>
           readFile fs (case best of None \<Rightarrow> path found | Some b \<Rightarrow> path b) = Some contents \<and>
           resp = \<lparr>status = 200,
                   headers = fileHeaders h0 ft (mtime (stat found)) (map_option chosenName best),
                   body = contents\<rparr> \<and>
           calls = calls2 @ [Read (case best of None \<Rightarrow> path found | Some b \<Rightarrow> path b)]"
  using assms unfolding sendFile_def chooseEncoding_guard Let_def
  by (auto split: option.splits prod.splits)

lemma fileHandler_Sent:
  assumes "fileHandler types fs req rt h0 = (Sent resp, calls)"
  shows "\<exists>p found calls1 calls'.
           \<not> forbiddenChar (pathNameOf req rt) \<and>
           safeJoin (reqRoot rt) (pathNameOf req rt) = Some p \<and>
           findFile fs p = (Some found, calls1) \<and>
           sendFile types fs req h0 found = (Sent resp, calls') \<and>
           calls = calls1 @ calls'"
  using assms unfolding fileHandler_def Let_def
  by (auto split: option.splits prod.splits if_splits)

lemma serve_200:
  assumes "status (fst (serve cfg fs req)) = 200"
  shows "\<exists>rt. hostMiddleware (loadedHosts cfg) req = Inr rt \<and>
              \<not> paramError (reqPath req) \<and>
              routedAsGet (reqMethod req) \<and>
              fileHandler (loadedFileTypes cfg) fs req rt
                (cacheControlRoutes (reqPath req) Map.empty) =
                (Sent (fst (serve cfg fs req)), snd (serve cfg fs req))"
proof (cases "hostMiddleware (loadedHosts cfg) req")
  case (Inl r)
  then have "r = invalidHost"
    by (auto simp: hostMiddleware_def split: option.splits prod.splits)
  with Inl assms show ?thesis by (simp add: serve_def invalidHost_def)
next
  case (Inr rt)
  have pe: "\<not> paramError (reqPath req)"
  proof
    assume "paramError (reqPath req)"
    with Inr assms show False by (simp add: serve_def errorHandler_def)
  qed
  show ?thesis
  proof (cases "routedAsGet (reqMethod req)")
    case False
    with Inr pe assms show ?thesis by (simp add: serve_def notFoundHandler_def)
  next
    case True
    obtain out calls where fh: "fileHandler (loadedFileTypes cfg) fs req rt
        (cacheControlRoutes (reqPath req) Map.empty) = (out, calls)"
      by (cases "fileHandler (loadedFileTypes cfg) fs req rt
        (cacheControlRoutes (reqPath req) Map.empty)")
    show ?thesis
    proof (cases out)
      case (Sent r)
      with Inr pe True fh show ?thesis by (simp add: serve_def)
    next
      case Next
      with Inr pe True fh assms show ?thesis by (simp add: serve_def notFoundHandler_def)
    next
      case Throw
      with Inr pe True fh assms show ?thesis by (simp add: serve_def errorHandler_def)
    qed
  qed
qed

text \<open>What a status 200 means, in one statement.\<close>

lemma serve_200_unfolded:
  assumes "status (fst (serve cfg fs req)) = 200"
  shows "\<exists>rt p found calls1 ft best calls2.
           hostMiddleware (loadedHosts cfg) req = Inr rt \<and>
           routedAsGet (reqMethod req) \<and>
           \<not> forbiddenChar (pathNameOf req rt) \<and>
           safeJoin (reqRoot rt) (pathNameOf req rt) = Some p \<and>
           findFile fs p = (Some found, calls1) \<and>
           getFileType (loadedFileTypes cfg) (path found) = Some ft \<and>
           chooseEncoding fs (reqAcceptsEncodings req) (encodings ft) (path found) = (best, calls2) \<and>
           readFile fs (case best of None \<Rightarrow> path found | Some b \<Rightarrow> path b) =
             Some (body (fst (serve cfg fs req))) \<and>
           headers (fst (serve cfg fs req)) =
             fileHeaders (cacheControlRoutes (reqPath req) Map.empty) ft (mtime (stat found))
               (map_option chosenName best) \<and>
           snd (serve cfg fs req) =
             calls1 @ calls2 @ [Read (case best of None \<Rightarrow> path found | Some b \<Rightarrow> path b)]"
proof -
  from serve_200 [OF assms] obtain rt where
    rt: "hostMiddleware (loadedHosts cfg) req = Inr rt" "routedAsGet (reqMethod req)"
    and fh: "fileHandler (loadedFileTypes cfg) fs req rt
                (cacheControlRoutes (reqPath req) Map.empty) =
                (Sent (fst (serve cfg fs req)), snd (serve cfg fs req))"
    by blast
  from fileHandler_Sent [OF fh] obtain p found calls1 calls' where
    p: "\<not> forbiddenChar (pathNameOf req rt)"
       "safeJoin (reqRoot rt) (pathNameOf req rt) = Some p"
       "findFile fs p = (Some found, calls1)"
    and sf: "sendFile (loadedFileTypes cfg) fs req (cacheControlRoutes (reqPath req) Map.empty) found =
        (Sent (fst (serve cfg fs req)), calls')"
    and c: "snd (serve cfg fs req) = calls1 @ calls'"
    by blast
  from sendFile_Sent [OF sf] obtain ft best calls2 contents where
    s: "getFileType (loadedFileTypes cfg) (path found) = Some ft"
       "chooseEncoding fs (reqAcceptsEncodings req) (encodings ft) (path found) = (best, calls2)"
       "readFile fs (case best of None \<Rightarrow> path found | Some b \<Rightarrow> path b) = Some contents"
    and r: "fst (serve cfg fs req) = \<lparr>status = 200,
                   headers = fileHeaders (cacheControlRoutes (reqPath req) Map.empty) ft
                      (mtime (stat found)) (map_option chosenName best),
                   body = contents\<rparr>"
    and c': "calls' = calls2 @ [Read (case best of None \<Rightarrow> path found | Some b \<Rightarrow> path b)]"
    by blast
  from r have "body (fst (serve cfg fs req)) = contents"
    and "headers (fst (serve cfg fs req)) =
           fileHeaders (cacheControlRoutes (reqPath req) Map.empty) ft
                      (mtime (stat found)) (map_option chosenName best)"
    by simp_all
  with rt p s c c' show ?thesis by auto
qed

subsection \<open>Encoding negotiation\<close>







subsection \<open>Branch prefixes and alias rules\<close>

lemma not_digit_slash: "\<not> is_digit CHR ''/''"
  by (simp add: is_digit_def)

lemma not_branch_slash: "\<not> branch_char CHR ''/''"
  by (simp add: branch_char_def is_word_def is_digit_def is_lower_def is_upper_def)

lemma digit_branch: "is_digit c \<Longrightarrow> branch_char c"
  by (simp add: branch_char_def)

lemma takeWhile_run:
  "\<forall>c \<in> set ds. P c \<Longrightarrow> \<not> P d \<Longrightarrow> takeWhile P (ds @ d # rest) = ds"
  by (induction ds) auto

lemma dropWhile_run:
  "\<forall>c \<in> set ds. P c \<Longrightarrow> \<not> P d \<Longrightarrow> dropWhile P (ds @ d # rest) = d # rest"
  by (induction ds) auto

lemma takeWhile_all: "\<forall>c \<in> set ds. P c \<Longrightarrow> takeWhile P ds = ds"
  by (induction ds) auto

lemma dropWhile_all: "\<forall>c \<in> set ds. P c \<Longrightarrow> dropWhile P ds = []"
  by (induction ds) auto

text \<open>The index pattern, in words.\<close>

lemma indexAlias_shape:
  "indexAlias p \<longleftrightarrow>
     p = ''/'' \<or>
     (\<exists>ds. ds \<noteq> [] \<and> (\<forall>c \<in> set ds. is_digit c) \<and> (p = ''/'' @ ds \<or> p = ''/'' @ ds @ ''/''))"
proof
  assume a: "indexAlias p"
  then obtain cs where p: "p = CHR ''/'' # cs"
    by (cases p) (auto simp: indexAlias_def)
  show "p = ''/'' \<or>
     (\<exists>ds. ds \<noteq> [] \<and> (\<forall>c \<in> set ds. is_digit c) \<and> (p = ''/'' @ ds \<or> p = ''/'' @ ds @ ''/''))"
  proof (cases "cs = []")
    case True
    with p show ?thesis by simp
  next
    case False
    let ?ds = "takeWhile is_digit cs"
    from a p False have ne: "?ds \<noteq> []" and se: "slash_end (dropWhile is_digit cs)"
      by (simp_all add: indexAlias_def)
    have d: "\<forall>c \<in> set ?ds. is_digit c" by (auto dest: set_takeWhileD)
    have "cs = ?ds @ dropWhile is_digit cs" by simp
    with se have "cs = ?ds \<or> cs = ?ds @ ''/''"
      unfolding slash_end_def by (metis append_Nil2)
    with p have "p = ''/'' @ ?ds \<or> p = ''/'' @ ?ds @ ''/''" by auto
    with ne d show ?thesis by blast
  qed
next
  assume "p = ''/'' \<or>
     (\<exists>ds. ds \<noteq> [] \<and> (\<forall>c \<in> set ds. is_digit c) \<and> (p = ''/'' @ ds \<or> p = ''/'' @ ds @ ''/''))"
  then show "indexAlias p"
  proof
    assume "p = ''/''"
    then show ?thesis by (simp add: indexAlias_def)
  next
    assume "\<exists>ds. ds \<noteq> [] \<and> (\<forall>c \<in> set ds. is_digit c) \<and> (p = ''/'' @ ds \<or> p = ''/'' @ ds @ ''/'')"
    then obtain ds where ne: "ds \<noteq> []" and d: "\<forall>c \<in> set ds. is_digit c"
      and p: "p = ''/'' @ ds \<or> p = ''/'' @ ds @ ''/''" by blast
    from p show ?thesis
    proof
      assume "p = ''/'' @ ds"
      with ne d show ?thesis
        by (simp add: indexAlias_def takeWhile_all dropWhile_all slash_end_def)
    next
      assume "p = ''/'' @ ds @ ''/''"
      with ne d show ?thesis
        using takeWhile_run [OF d not_digit_slash, of "[]"] dropWhile_run [OF d not_digit_slash, of "[]"]
        by (simp add: indexAlias_def slash_end_def)
    qed
  qed
qed


lemma indexAlias_iff: "indexAlias p \<longleftrightarrow> specIndexPath p"
  unfolding specIndexPath_def by (rule indexAlias_shape)

lemma word_end_iff:
  "word_end word s \<longleftrightarrow>
     (\<exists>w sl. s = w @ sl \<and> map canonicalize w = map canonicalize word \<and> (sl = [] \<or> sl = ''/''))"
proof
  assume a: "word_end word s"
  then have "s = take (length word) s @ drop (length word) s \<and>
      map canonicalize (take (length word) s) = map canonicalize word \<and>
      (drop (length word) s = [] \<or> drop (length word) s = ''/'')"
    by (simp add: word_end_def slash_end_def)
  then show "\<exists>w sl. s = w @ sl \<and> map canonicalize w = map canonicalize word \<and> (sl = [] \<or> sl = ''/'')"
    by blast
next
  assume "\<exists>w sl. s = w @ sl \<and> map canonicalize w = map canonicalize word \<and> (sl = [] \<or> sl = ''/'')"
  then obtain w sl where s: "s = w @ sl" and m: "map canonicalize w = map canonicalize word"
    and sl: "sl = [] \<or> sl = ''/''" by blast
  from m have "length w = length word" by (rule map_eq_imp_length_eq)
  with s m sl show "word_end word s" by (auto simp: word_end_def slash_end_def)
qed

lemma wordAlias_iff: "wordAlias word p \<longleftrightarrow> specWordPath word p"
proof
  assume a: "wordAlias word p"
  then obtain cs where p: "p = CHR ''/'' # cs"
    by (cases p) (auto simp: wordAlias_def)
  let ?ds = "takeWhile is_digit cs"
  from a p have "word_end word cs \<or>
      (?ds \<noteq> [] \<and> (\<exists>rest. dropWhile is_digit cs = CHR ''/'' # rest \<and> word_end word rest))"
    by (auto simp: wordAlias_def split: list.splits)
  then show "specWordPath word p"
  proof
    assume "word_end word cs"
    then obtain w sl where "cs = w @ sl" "map canonicalize w = map canonicalize word"
      "sl = [] \<or> sl = ''/''" unfolding word_end_iff by blast
    with p have "map canonicalize w = map canonicalize word \<and> (sl = [] \<or> sl = ''/'') \<and>
        p = ''/'' @ w @ sl" by simp
    then show ?thesis unfolding specWordPath_def by blast
  next
    assume "?ds \<noteq> [] \<and> (\<exists>rest. dropWhile is_digit cs = CHR ''/'' # rest \<and> word_end word rest)"
    then obtain rest where ne: "?ds \<noteq> []" and dr: "dropWhile is_digit cs = CHR ''/'' # rest"
      and we: "word_end word rest" by blast
    from we obtain w sl where r: "rest = w @ sl" and m: "map canonicalize w = map canonicalize word"
      and sl: "sl = [] \<or> sl = ''/''" unfolding word_end_iff by blast
    have "cs = ?ds @ dropWhile is_digit cs" by simp
    with dr r have "cs = ?ds @ ''/'' @ w @ sl" by simp
    with p have pp: "p = ''/'' @ ?ds @ ''/'' @ w @ sl" by simp
    have d: "\<forall>c \<in> set ?ds. is_digit c" by (auto dest: set_takeWhileD)
    from ne d pp have "\<exists>ds. ds \<noteq> [] \<and> (\<forall>c \<in> set ds. is_digit c) \<and> p = ''/'' @ ds @ ''/'' @ w @ sl"
      by blast
    with m sl show ?thesis unfolding specWordPath_def by blast
  qed
next
  assume "specWordPath word p"
  then obtain w sl where m: "map canonicalize w = map canonicalize word"
    and sl: "sl = [] \<or> sl = ''/''"
    and p: "p = ''/'' @ w @ sl \<or>
       (\<exists>ds. ds \<noteq> [] \<and> (\<forall>c \<in> set ds. is_digit c) \<and> p = ''/'' @ ds @ ''/'' @ w @ sl)"
    unfolding specWordPath_def by blast
  from m sl have we: "word_end word (w @ sl)" unfolding word_end_iff by blast
  from p show "wordAlias word p"
  proof
    assume "p = ''/'' @ w @ sl"
    with we show ?thesis by (simp add: wordAlias_def)
  next
    assume "\<exists>ds. ds \<noteq> [] \<and> (\<forall>c \<in> set ds. is_digit c) \<and> p = ''/'' @ ds @ ''/'' @ w @ sl"
    then obtain ds where ne: "ds \<noteq> []" and d: "\<forall>c \<in> set ds. is_digit c"
      and pp: "p = ''/'' @ ds @ ''/'' @ w @ sl" by blast
    have t: "takeWhile is_digit (ds @ CHR ''/'' # w @ sl) = ds"
      by (rule takeWhile_run [OF d not_digit_slash])
    have dr: "dropWhile is_digit (ds @ CHR ''/'' # w @ sl) = CHR ''/'' # w @ sl"
      by (rule dropWhile_run [OF d not_digit_slash])
    from pp ne we t dr show ?thesis by (simp add: wordAlias_def)
  qed
qed

lemma branchMatch_iff:
  "branchMatch p = Some bn \<longleftrightarrow>
     bn \<noteq> [] \<and> (\<forall>c \<in> set bn. branch_char c) \<and> (\<exists>r. p = ''/'' @ bn @ ''/'' @ r)"
proof
  assume a: "branchMatch p = Some bn"
  then obtain cs where p: "p = CHR ''/'' # cs"
    by (cases p) (auto simp: branchMatch_def split: if_splits)
  from a p obtain r where dr: "dropWhile branch_char cs = CHR ''/'' # r"
    and ne: "takeWhile branch_char cs \<noteq> []" and n: "bn = takeWhile branch_char cs"
    by (auto simp: branchMatch_def Let_def split: list.splits if_splits)
  have "cs = takeWhile branch_char cs @ dropWhile branch_char cs" by simp
  with dr n have "cs = bn @ ''/'' @ r" by simp
  with p have "p = ''/'' @ bn @ ''/'' @ r" by simp
  moreover from n have "\<forall>c \<in> set bn. branch_char c" by (auto dest: set_takeWhileD)
  moreover from ne n have "bn \<noteq> []" by simp
  ultimately show "bn \<noteq> [] \<and> (\<forall>c \<in> set bn. branch_char c) \<and> (\<exists>r. p = ''/'' @ bn @ ''/'' @ r)"
    by blast
next
  assume "bn \<noteq> [] \<and> (\<forall>c \<in> set bn. branch_char c) \<and> (\<exists>r. p = ''/'' @ bn @ ''/'' @ r)"
  then obtain r where ne: "bn \<noteq> []" and b: "\<forall>c \<in> set bn. branch_char c"
    and p: "p = ''/'' @ bn @ ''/'' @ r" by blast
  have t: "takeWhile branch_char (bn @ CHR ''/'' # r) = bn"
    by (rule takeWhile_run [OF b not_branch_slash])
  have d: "dropWhile branch_char (bn @ CHR ''/'' # r) = CHR ''/'' # r"
    by (rule dropWhile_run [OF b not_branch_slash])
  from p ne t d show "branchMatch p = Some bn" by (simp add: branchMatch_def Let_def)
qed

lemma stripBranch_match:
  assumes "bn \<noteq> []" and "\<forall>c \<in> set bn. branch_char c"
  shows "stripBranch True (''/'' @ bn @ ''/'' @ r) = (''/'' @ bn, ''/'' @ r)"
proof -
  have "branchMatch (''/'' @ bn @ ''/'' @ r) = Some bn"
    unfolding branchMatch_iff using assms by blast
  then show ?thesis by (simp add: stripBranch_def Let_def)
qed

lemma stripBranch_cases:
  assumes "stripBranch b p = (pre, rest)"
  shows "(pre = [] \<and> rest = p \<and> (b \<longrightarrow> branchMatch p = None)) \<or>
         (b \<and> (\<exists>bn r. branchMatch p = Some bn \<and> pre = ''/'' @ bn \<and> rest = ''/'' @ r \<and>
                  p = pre @ rest))"
proof (cases "b \<and> branchMatch p \<noteq> None")
  case False
  with assms show ?thesis by (auto simp: stripBranch_def split: option.splits)
next
  case True
  then obtain bn where bm: "branchMatch p = Some bn" by auto
  then obtain r where p: "p = ''/'' @ bn @ ''/'' @ r" unfolding branchMatch_iff by blast
  from assms True bm have "pre = ''/'' @ bn \<and> rest = drop (length (''/'' @ bn)) p"
    by (auto simp: stripBranch_def Let_def)
  with p have "pre = ''/'' @ bn \<and> rest = ''/'' @ r \<and> p = pre @ rest" by simp
  with True bm show ?thesis by blast
qed

lemma hostMiddleware_known:
  assumes "hs (reqHostname req) = Some h"
    and "stripBranch (branches h) (reqPath req) = (pre, rest)"
  shows "hostMiddleware hs req =
     Inr \<lparr>logicalPath =
            (if specIndexPath rest then Some (pre @ ''/index.html'')
             else if specWordPath ''editor'' rest then Some (pre @ ''/editor.html'')
             else if specWordPath ''fullscreen'' rest then Some (pre @ ''/fullscreen.html'')
             else None),
          reqRoot = root h\<rparr>"
  using assms by (simp add: hostMiddleware_def indexAlias_iff wordAlias_iff)

lemma specIndexPath_chars:
  assumes "specIndexPath p"
  shows "\<forall>c \<in> set p. is_digit c \<or> c = CHR ''/''"
  using assms unfolding specIndexPath_def by auto

lemma hostMiddleware_InrI:
  assumes "\<not> isl (hostMiddleware hs req)"
    and "logicalPath (projr (hostMiddleware hs req)) = l"
    and "reqRoot (projr (hostMiddleware hs req)) = r"
  shows "hostMiddleware hs req = Inr \<lparr>logicalPath = l, reqRoot = r\<rparr>"
  using assms by (cases "hostMiddleware hs req") auto

subsection \<open>Character classes and the character filter\<close>

lemma char_range:
  assumes "hi < 256"
  shows "(lo \<le> (of_char c :: nat) \<and> (of_char c :: nat) \<le> hi) \<longleftrightarrow> c \<in> set (map char_of [lo..<Suc hi])"
proof
  assume "lo \<le> (of_char c :: nat) \<and> (of_char c :: nat) \<le> hi"
  then have "(of_char c :: nat) \<in> set [lo..<Suc hi]" by auto
  then have "char_of (of_char c :: nat) \<in> set (map char_of [lo..<Suc hi])"
    by (simp only: set_map) (rule imageI)
  then show "c \<in> set (map char_of [lo..<Suc hi])" by simp
next
  assume "c \<in> set (map char_of [lo..<Suc hi])"
  then obtain n :: nat where n: "lo \<le> n" "n \<le> hi" and c: "c = char_of n" by auto
  from n assms have "n mod 256 = n" by simp
  with c have "(of_char c :: nat) = n" by (simp add: of_char_of)
  with n show "lo \<le> (of_char c :: nat) \<and> (of_char c :: nat) \<le> hi" by simp
qed

lemma lower_enum: "is_lower c \<longleftrightarrow> c \<in> set ''abcdefghijklmnopqrstuvwxyz''"
proof -
  have e: "map char_of [97..<Suc 122 :: nat] = ''abcdefghijklmnopqrstuvwxyz''" by code_simp
  have "is_lower c \<longleftrightarrow> (97 \<le> (of_char c :: nat) \<and> (of_char c :: nat) \<le> 122)"
    by (simp add: is_lower_def less_eq_char_def)
  also have "\<dots> \<longleftrightarrow> c \<in> set (map char_of [97..<Suc 122 :: nat])"
    by (rule char_range) simp
  finally show ?thesis unfolding e .
qed

lemma upper_enum: "is_upper c \<longleftrightarrow> c \<in> set ''ABCDEFGHIJKLMNOPQRSTUVWXYZ''"
proof -
  have e: "map char_of [65..<Suc 90 :: nat] = ''ABCDEFGHIJKLMNOPQRSTUVWXYZ''" by code_simp
  have "is_upper c \<longleftrightarrow> (65 \<le> (of_char c :: nat) \<and> (of_char c :: nat) \<le> 90)"
    by (simp add: is_upper_def less_eq_char_def)
  also have "\<dots> \<longleftrightarrow> c \<in> set (map char_of [65..<Suc 90 :: nat])"
    by (rule char_range) simp
  finally show ?thesis unfolding e .
qed

lemma digit_enum: "is_digit c \<longleftrightarrow> c \<in> set ''0123456789''"
proof -
  have e: "map char_of [48..<Suc 57 :: nat] = ''0123456789''" by code_simp
  have "is_digit c \<longleftrightarrow> (48 \<le> (of_char c :: nat) \<and> (of_char c :: nat) \<le> 57)"
    by (simp add: is_digit_def less_eq_char_def)
  also have "\<dots> \<longleftrightarrow> c \<in> set (map char_of [48..<Suc 57 :: nat])"
    by (rule char_range) simp
  finally show ?thesis unfolding e .
qed

lemma path_char_enum:
  "path_char c \<longleftrightarrow>
     c \<in> set (''abcdefghijklmnopqrstuvwxyz'' @ ''ABCDEFGHIJKLMNOPQRSTUVWXYZ'' @ ''0123456789'' @ ''.-/~'')"
  unfolding path_char_def lower_enum upper_enum digit_enum set_append by auto

lemma findFile_first_call: "\<exists>found calls. findFile fs p = (found, Stat p # calls)"
  by (simp add: findFile_def Let_def split: option.splits)

lemma not_found_answer:
  "status (notFoundHandler h0) = 404 \<and> body (notFoundHandler h0) = ''404 Not Found'' \<and>
   headers (notFoundHandler h0) ''Content-Type'' = Some (Text ''text/plain'')"
  by (simp add: notFoundHandler_def)

lemma uriError_percent:
  "uriError octets pending s \<Longrightarrow> 0 < pending \<or> CHR ''%'' \<in> set s"
  by (induction octets pending s rule: uriError.induct)
     (auto simp: Let_def split: if_splits list.splits)

text \<open>A route parameter that fails to decode holds a percent sign, which the character
  filter does not allow: a path that passes the filter always decodes.\<close>

lemma paramError_percent: "paramError p \<Longrightarrow> CHR ''%'' \<in> set p"
proof -
  assume "paramError p"
  then have "CHR ''%'' \<in> set (drop 1 p)"
    using uriError_percent [of "[]" 0 "drop 1 p"] by (simp add: paramError_def decodeFails_def)
  then show ?thesis by (rule in_set_dropD)
qed

lemma paramError_forbidden: "paramError p \<Longrightarrow> forbiddenChar p"
proof -
  assume "paramError p"
  then have "CHR ''%'' \<in> set p" by (rule paramError_percent)
  moreover have "\<not> path_char CHR ''%''" by code_simp
  ultimately show ?thesis unfolding forbiddenChar_def by blast
qed

lemma error_answer:
  "status (errorHandler h0) = 500 \<and> body (errorHandler h0) = ''Internal server error'' \<and>
   headers (errorHandler h0) ''Content-Type'' = Some (Text ''text/plain'')"
  by (simp add: errorHandler_def)

text \<open>A request on a known host whose route parameter does not decode is answered by
  the error middleware, whatever its method, and no handler of a route runs.\<close>

lemma serve_paramError:
  assumes "hostMiddleware (loadedHosts cfg) req = Inr rt"
    and "paramError (reqPath req)"
  shows "status (fst (serve cfg fs req)) = 500 \<and>
         body (fst (serve cfg fs req)) = ''Internal server error'' \<and>
         snd (serve cfg fs req) = []"
  using assms by (simp add: serve_def error_answer)

text \<open>The paths \<open>/%zz\<close> and \<open>/a%b.png\<close>, on a known host: answered 500, for GET and for
  POST alike; the well-formed escape in \<open>/%41\<close> decodes, and the request goes on to the
  filter, which rejects the percent sign.\<close>

lemma malformed_escape_answer:
  "paramError ''/%zz'' \<and> paramError ''/a%b.png'' \<and> \<not> paramError ''/%41'' \<and>
   status (fst (serve exampleConfig exampleFs (exampleGet ''plain.example'' ''/%zz'' []))) = 500 \<and>
   body (fst (serve exampleConfig exampleFs (exampleGet ''plain.example'' ''/%zz'' []))) =
     ''Internal server error'' \<and>
   status (fst (serve exampleConfig exampleFs
     \<lparr>reqMethod = ''POST'', reqHostname = ''plain.example'', reqPath = ''/a%b.png'',
      reqAcceptsEncodings = []\<rparr>)) = 500 \<and>
   forbiddenChar ''/%41'' \<and>
   status (fst (serve exampleConfig exampleFs (exampleGet ''plain.example'' ''/%41'' []))) = 404"
  by code_simp

lemma serve_Next:
  assumes "hostMiddleware (loadedHosts cfg) req = Inr rt"
    and "\<not> paramError (reqPath req)"
    and "routedAsGet (reqMethod req) \<longrightarrow>
         fileHandler (loadedFileTypes cfg) fs req rt (cacheControlRoutes (reqPath req) Map.empty) =
           (Next, [])"
  shows "status (fst (serve cfg fs req)) = 404 \<and>
         body (fst (serve cfg fs req)) = ''404 Not Found'' \<and>
         headers (fst (serve cfg fs req)) ''Content-Type'' = Some (Text ''text/plain'') \<and>
         snd (serve cfg fs req) = []"
proof (cases "routedAsGet (reqMethod req)")
  case True
  with assms have "serve cfg fs req =
      (notFoundHandler (cacheControlRoutes (reqPath req) Map.empty), [])"
    by (simp add: serve_def)
  then show ?thesis by (simp add: not_found_answer)
next
  case False
  with assms(1,2) have "serve cfg fs req = (notFoundHandler Map.empty, [])"
    by (simp add: serve_def)
  then show ?thesis by (simp add: not_found_answer)
qed


subsection \<open>The paths handed to the file system\<close>

lemma path_join_nonempty: "path_join args \<noteq> []"
proof -
  from path_join_normal_form obtain ab tr st
    where "good (\<not> ab) st" "path_join args = render ab tr st" by blast
  then show ?thesis using render_nonempty by simp
qed

lemma safeJoin_Some:
  "safeJoin r f = Some p \<Longrightarrow> p = path_join [r, f] \<and> prefix r p"
  by (auto simp: safeJoin_def Let_def split: if_splits)

lemma safeJoin_None_iff:
  "safeJoin r f = None \<longleftrightarrow> \<not> prefix r (path_join [r, f])"
  by (simp add: safeJoin_def Let_def)

lemma findFile_calls:
  assumes "c \<in> set (snd (findFile fs p))"
  shows "c = Stat p \<or> c = Stat (path_join [p, ''index.html''])"
  using assms by (auto simp: findFile_def Let_def split: option.splits if_splits)

lemma findFile_path:
  assumes "fst (findFile fs p) = Some found"
  shows "path found = p \<or> path found = path_join [p, ''index.html'']"
  using assms by (auto simp: findFile_def Let_def split: option.splits if_splits)

lemma chooseEncoding_calls:
  "c \<in> set (snd (chooseEncoding fs acc es fp)) \<Longrightarrow> prefix fp (call_path c)"
  by (induction es) (auto simp: Let_def split: option.splits if_splits)

lemma chooseEncoding_path:
  "fst (chooseEncoding fs acc es fp) = Some b \<Longrightarrow> prefix fp (path b)"
  by (induction es) (auto simp: Let_def split: option.splits if_splits)

lemma sendFile_calls:
  assumes "c \<in> set (snd (sendFile types fs req h0 found))"
  shows "prefix (path found) (call_path c)"
proof (cases "getFileType types (path found)")
  case None
  with assms show ?thesis by (simp add: sendFile_def)
next
  case (Some ft)
  obtain best calls where ch:
    "chooseEncoding fs (reqAcceptsEncodings req) (encodings ft) (path found) = (best, calls)"
    by (cases "chooseEncoding fs (reqAcceptsEncodings req) (encodings ft) (path found)")
  let ?fp = "case best of None \<Rightarrow> path found | Some b \<Rightarrow> path b"
  have sc: "snd (sendFile types fs req h0 found) = calls @ [Read ?fp]"
    using Some ch unfolding sendFile_def chooseEncoding_guard Let_def
    by (simp split: option.splits)
  have p: "prefix (path found) ?fp"
  proof (cases best)
    case None
    then show ?thesis by simp
  next
    case (Some b)
    with ch have "fst (chooseEncoding fs (reqAcceptsEncodings req) (encodings ft) (path found)) = Some b"
      by simp
    from chooseEncoding_path [OF this] Some show ?thesis by simp
  qed
  from assms sc have "c \<in> set calls \<or> c = Read ?fp" by auto
  then show ?thesis
  proof
    assume "c \<in> set calls"
    with ch have "c \<in> set (snd (chooseEncoding fs (reqAcceptsEncodings req) (encodings ft) (path found)))"
      by simp
    then show ?thesis by (rule chooseEncoding_calls)
  next
    assume "c = Read ?fp"
    with p show ?thesis by simp
  qed
qed

lemma fileHandler_calls:
  assumes "c \<in> set (snd (fileHandler types fs req rt h0))"
  shows "\<exists>p. safeJoin (reqRoot rt) (pathNameOf req rt) = Some p \<and>
             (prefix p (call_path c) \<or> prefix (path_join [p, ''index.html'']) (call_path c))"
proof (cases "forbiddenChar (pathNameOf req rt)")
  case True
  with assms show ?thesis by (simp add: fileHandler_def)
next
  case nf: False
  show ?thesis
  proof (cases "safeJoin (reqRoot rt) (pathNameOf req rt)")
    case None
    with nf assms show ?thesis by (simp add: fileHandler_def)
  next
    case (Some p)
    obtain found calls where ff: "findFile fs p = (found, calls)" by (cases "findFile fs p")
    have "prefix p (call_path c) \<or> prefix (path_join [p, ''index.html'']) (call_path c)"
    proof (cases found)
      case None
      with nf Some ff assms have "c \<in> set (snd (findFile fs p))" by (simp add: fileHandler_def)
      from findFile_calls [OF this] show ?thesis by auto
    next
      case f: (Some fnd)
      obtain out calls' where sf: "sendFile types fs req h0 fnd = (out, calls')"
        by (cases "sendFile types fs req h0 fnd")
      with nf Some ff f assms have "c \<in> set calls \<or> c \<in> set calls'"
        by (simp add: fileHandler_def)
      then show ?thesis
      proof
        assume "c \<in> set calls"
        with ff have "c \<in> set (snd (findFile fs p))" by simp
        from findFile_calls [OF this] show ?thesis by auto
      next
        assume "c \<in> set calls'"
        with sf have "c \<in> set (snd (sendFile types fs req h0 fnd))" by simp
        then have pc: "prefix (path fnd) (call_path c)" by (rule sendFile_calls)
        from ff f have "fst (findFile fs p) = Some fnd" by simp
        from findFile_path [OF this] pc show ?thesis by auto
      qed
    qed
    with Some show ?thesis by simp
  qed
qed

lemma serve_calls:
  assumes "c \<in> set (snd (serve cfg fs req))"
  shows "\<exists>rt. hostMiddleware (loadedHosts cfg) req = Inr rt \<and>
              c \<in> set (snd (fileHandler (loadedFileTypes cfg) fs req rt
                               (cacheControlRoutes (reqPath req) Map.empty)))"
proof (cases "hostMiddleware (loadedHosts cfg) req")
  case (Inl r)
  with assms show ?thesis by (simp add: serve_def)
next
  case (Inr rt)
  have pe: "\<not> paramError (reqPath req)"
  proof
    assume "paramError (reqPath req)"
    with Inr assms show False by (simp add: serve_def)
  qed
  show ?thesis
  proof (cases "routedAsGet (reqMethod req)")
    case False
    with Inr pe assms show ?thesis by (simp add: serve_def)
  next
    case True
    obtain out calls where fh: "fileHandler (loadedFileTypes cfg) fs req rt
        (cacheControlRoutes (reqPath req) Map.empty) = (out, calls)"
      by (cases "fileHandler (loadedFileTypes cfg) fs req rt
        (cacheControlRoutes (reqPath req) Map.empty)")
    with Inr pe True assms have "c \<in> set calls"
      by (cases out) (simp_all add: serve_def)
    with Inr fh show ?thesis by simp
  qed
qed

lemma hostMiddleware_root:
  assumes "hs (reqHostname req) = Some h"
  shows "\<exists>rt. hostMiddleware hs req = Inr rt \<and> reqRoot rt = root h"
  using assms by (simp add: hostMiddleware_def split: prod.splits)

lemma loadedHosts_root:
  assumes "loadedHosts cfg hostname = Some h"
  shows "\<exists>r. root h = r @ ''/''"
proof -
  from assms obtain h0 where "h = normalizeRoot h0"
    by (auto simp: loadedHosts_def)
  then have "root h = path_join [root h0, ''/'']" by (simp add: normalizeRoot_def)
  with normalizeRoot_trailing [of "root h0"] show ?thesis by simp
qed

lemma call_within_root:
  assumes r: "rootDir = r @ ''/''"
    and sj: "safeJoin rootDir pn = Some p"
    and c: "prefix p cp \<or> prefix (path_join [p, ''index.html'']) cp"
    and a: "isAbsolute rootDir \<or> isAbsolute cp"
  shows "prefix rootDir cp"
proof -
  from safeJoin_Some [OF sj] have p: "p = path_join [rootDir, pn]" and pr: "prefix rootDir p"
    by blast+
  from c show ?thesis
  proof
    assume "prefix p cp"
    with pr show ?thesis by (rule prefix_order.trans)
  next
    assume i: "prefix (path_join [p, ''index.html'']) cp"
    have "isAbsolute cp = isAbsolute (path_join [p, ''index.html''])"
      using i path_join_nonempty by (rule isAbsolute_prefix)
    with a have "isAbsolute rootDir \<or> isAbsolute (path_join [path_join [rootDir, pn], ''index.html''])"
      using p by simp
    from index_prefix [OF r _ this] pr p
    have "prefix rootDir (path_join [p, ''index.html''])" by simp
    then show ?thesis using i by (rule prefix_order.trans)
  qed
qed

subsection \<open>Failed file resolution\<close>

text \<open>
  When \<open>findFile\<close> returns \<open>null\<close> the handler throws before it can call \<open>next()\<close>, and the
  request ends in the error middleware.
\<close>

lemma resolution_failure_throws:
  assumes "\<not> forbiddenChar (pathNameOf req rt)"
    and "safeJoin (reqRoot rt) (pathNameOf req rt) = Some p"
    and "fst (findFile fs p) = None"
  shows "fileHandler types fs req rt h0 = (Throw, snd (findFile fs p))"
  using assms by (cases "findFile fs p") (simp add: fileHandler_def)

lemma resolution_failure_500:
  assumes "hostMiddleware (loadedHosts cfg) req = Inr rt"
    and "\<not> paramError (reqPath req)"
    and "routedAsGet (reqMethod req)"
    and "\<not> forbiddenChar (pathNameOf req rt)"
    and "safeJoin (reqRoot rt) (pathNameOf req rt) = Some p"
    and "fst (findFile fs p) = None"
  shows "fst (serve cfg fs req) = errorHandler (cacheControlRoutes (reqPath req) Map.empty)"
  using assms(1,2,3) resolution_failure_throws [OF assms(4,5,6)]
  by (simp add: serve_def)

text \<open>
  Claim C1 says that a request whose file resolution fails is answered with status 404
  and the body \<open>404 Not Found\<close>. The code answers the request for the missing file
  \<open>/no/such/file.png\<close> with status 500 and the body \<open>Internal server error\<close>, after one
  \<open>stat\<close> call, and the request for the directory \<open>/empty/\<close>, which has no index file,
  in the same way.
\<close>

theorem C1_missing_file_answer:
  "status (fst (serve exampleConfig exampleFs
      (exampleGet ''plain.example'' ''/no/such/file.png'' [''identity'']))) = 500 \<and>
   body (fst (serve exampleConfig exampleFs
      (exampleGet ''plain.example'' ''/no/such/file.png'' [''identity'']))) = ''Internal server error'' \<and>
   snd (serve exampleConfig exampleFs
      (exampleGet ''plain.example'' ''/no/such/file.png'' [''identity''])) =
     [Stat ''/srv/site/no/such/file.png''] \<and>
   status (fst (serve exampleConfig exampleFs
      (exampleGet ''plain.example'' ''/empty/'' [''identity'']))) = 500 \<and>
   body (fst (serve exampleConfig exampleFs
      (exampleGet ''plain.example'' ''/empty/'' [''identity'']))) = ''Internal server error'' \<and>
   snd (serve exampleConfig exampleFs
      (exampleGet ''plain.example'' ''/empty/'' [''identity''])) =
     [Stat ''/srv/site/empty/'', Stat ''/srv/site/empty/index.html'']"
  by code_simp

subsection \<open>Containment in the document root\<close>

text \<open>
  Claim C2. The root of a loaded host ends in a separator. Every absolute path handed to
  \<open>stat\<close> or \<open>readFile\<close> for a request has that root as a literal prefix (and for an
  absolute root every path handed over is such a path); the file system is reached only
  when the root is a prefix of the normalized join of root and path. \<open>safeJoin\<close> returns
  \<open>null\<close> exactly when the root is not a prefix of the normalized join, and the request,
  its route parameter decoded (as it is whenever \<open>safeJoin\<close> is called), is then answered
  as not found without any file system call.
\<close>

theorem C2_paths_within_root:
  assumes "loadedHosts cfg (reqHostname req) = Some h"
  shows "(\<exists>r. root h = r @ ''/'') \<and>
         (\<forall>c \<in> set (snd (serve cfg fs req)).
            isAbsolute (call_path c) \<longrightarrow> prefix (root h) (call_path c)) \<and>
         (isAbsolute (root h) \<longrightarrow>
            (\<forall>c \<in> set (snd (serve cfg fs req)). prefix (root h) (call_path c))) \<and>
         (\<forall>p. safeJoin (root h) p = None \<longleftrightarrow> \<not> prefix (root h) (path_join [root h, p])) \<and>
         (\<exists>rt. hostMiddleware (loadedHosts cfg) req = Inr rt \<and> reqRoot rt = root h \<and>
            (snd (serve cfg fs req) \<noteq> [] \<longrightarrow>
               prefix (root h) (path_join [root h, pathNameOf req rt])) \<and>
            (safeJoin (root h) (pathNameOf req rt) = None \<and> \<not> paramError (reqPath req) \<longrightarrow>
               status (fst (serve cfg fs req)) = 404 \<and>
               body (fst (serve cfg fs req)) = ''404 Not Found'' \<and>
               snd (serve cfg fs req) = []))"
proof -
  from loadedHosts_root [OF assms] obtain r where r: "root h = r @ ''/''" by blast
  from hostMiddleware_root [where hs = "loadedHosts cfg" and req = req, OF assms] obtain rt where
    rt: "hostMiddleware (loadedHosts cfg) req = Inr rt" and rr: "reqRoot rt = root h" by blast
  have calls: "\<exists>p. safeJoin (root h) (pathNameOf req rt) = Some p \<and>
             (prefix p (call_path c) \<or> prefix (path_join [p, ''index.html'']) (call_path c))"
    if "c \<in> set (snd (serve cfg fs req))" for c
  proof -
    from serve_calls [OF that] rt
    have "c \<in> set (snd (fileHandler (loadedFileTypes cfg) fs req rt
                               (cacheControlRoutes (reqPath req) Map.empty)))"
      by simp
    from fileHandler_calls [OF this] rr show ?thesis by simp
  qed
  have 1: "\<exists>r. root h = r @ ''/''" using r by blast
  have 2: "\<forall>c \<in> set (snd (serve cfg fs req)).
            isAbsolute (call_path c) \<longrightarrow> prefix (root h) (call_path c)"
  proof (intro ballI impI)
    fix c
    assume c: "c \<in> set (snd (serve cfg fs req))" and a: "isAbsolute (call_path c)"
    from calls [OF c] obtain p where sj: "safeJoin (root h) (pathNameOf req rt) = Some p"
      and pc: "prefix p (call_path c) \<or> prefix (path_join [p, ''index.html'']) (call_path c)"
      by blast
    show "prefix (root h) (call_path c)"
      by (rule call_within_root [OF r sj pc disjI2 [OF a]])
  qed
  have 3: "isAbsolute (root h) \<longrightarrow>
            (\<forall>c \<in> set (snd (serve cfg fs req)). prefix (root h) (call_path c))"
  proof (intro ballI impI)
    fix c
    assume a: "isAbsolute (root h)" and c: "c \<in> set (snd (serve cfg fs req))"
    from calls [OF c] obtain p where sj: "safeJoin (root h) (pathNameOf req rt) = Some p"
      and pc: "prefix p (call_path c) \<or> prefix (path_join [p, ''index.html'']) (call_path c)"
      by blast
    show "prefix (root h) (call_path c)"
      by (rule call_within_root [OF r sj pc disjI1 [OF a]])
  qed
  have 4: "\<forall>p. safeJoin (root h) p = None \<longleftrightarrow> \<not> prefix (root h) (path_join [root h, p])"
    by (simp add: safeJoin_None_iff)
  have 5: "snd (serve cfg fs req) \<noteq> [] \<longrightarrow>
               prefix (root h) (path_join [root h, pathNameOf req rt])"
  proof
    assume "snd (serve cfg fs req) \<noteq> []"
    then obtain c where "c \<in> set (snd (serve cfg fs req))"
      by (cases "snd (serve cfg fs req)") auto
    from calls [OF this] obtain p where "safeJoin (root h) (pathNameOf req rt) = Some p" by blast
    from safeJoin_Some [OF this]
    show "prefix (root h) (path_join [root h, pathNameOf req rt])" by auto
  qed
  have 6: "safeJoin (root h) (pathNameOf req rt) = None \<and> \<not> paramError (reqPath req) \<longrightarrow>
               status (fst (serve cfg fs req)) = 404 \<and>
               body (fst (serve cfg fs req)) = ''404 Not Found'' \<and>
               snd (serve cfg fs req) = []"
  proof
    assume a: "safeJoin (root h) (pathNameOf req rt) = None \<and> \<not> paramError (reqPath req)"
    then have pe: "\<not> paramError (reqPath req)" by simp
    from a rr have "routedAsGet (reqMethod req) \<longrightarrow>
         fileHandler (loadedFileTypes cfg) fs req rt (cacheControlRoutes (reqPath req) Map.empty) =
           (Next, [])"
      by (simp add: fileHandler_def Let_def)
    from serve_Next [OF rt pe this]
    show "status (fst (serve cfg fs req)) = 404 \<and>
               body (fst (serve cfg fs req)) = ''404 Not Found'' \<and>
               snd (serve cfg fs req) = []" by simp
  qed
  have 7: "\<exists>rt. hostMiddleware (loadedHosts cfg) req = Inr rt \<and> reqRoot rt = root h \<and>
            (snd (serve cfg fs req) \<noteq> [] \<longrightarrow>
               prefix (root h) (path_join [root h, pathNameOf req rt])) \<and>
            (safeJoin (root h) (pathNameOf req rt) = None \<and> \<not> paramError (reqPath req) \<longrightarrow>
               status (fst (serve cfg fs req)) = 404 \<and>
               body (fst (serve cfg fs req)) = ''404 Not Found'' \<and>
               snd (serve cfg fs req) = [])"
    by (rule exI [of _ rt]) (rule conjI [OF rt conjI [OF rr conjI [OF 5 6]]])
  show ?thesis by (rule conjI [OF 1 conjI [OF 2 conjI [OF 3 conjI [OF 4 7]]]])
qed

text \<open>
  The root \<open>/srv/site/\<close>. The request \<open>/blog/\<close> makes five file system calls, all
  below the root. The path \<open>/../etc/passwd\<close> passes the character filter and joins to
  \<open>/srv/etc/passwd\<close>, outside the root: \<open>safeJoin\<close> returns \<open>null\<close>, the answer is 404 and
  no call is made.
\<close>

theorem C2_paths_within_root_witness:
  "loadedHosts exampleConfig (reqHostname (exampleGet ''plain.example'' ''/blog/'' [''gzip'', ''br''])) =
     Some \<lparr>root = ''/srv/site/'', branches = False\<rparr> \<and>
   isAbsolute (root \<lparr>root = ''/srv/site/'', branches = False\<rparr>) \<and>
   snd (serve exampleConfig exampleFs (exampleGet ''plain.example'' ''/blog/'' [''gzip'', ''br''])) =
     [Stat ''/srv/site/blog/'', Stat ''/srv/site/blog/index.html'',
      Stat ''/srv/site/blog/index.html.gz'', Stat ''/srv/site/blog/index.html.br'',
      Read ''/srv/site/blog/index.html.br''] \<and>
   list_all (\<lambda>c. prefix (root \<lparr>root = ''/srv/site/'', branches = False\<rparr>) (call_path c))
     (snd (serve exampleConfig exampleFs
            (exampleGet ''plain.example'' ''/blog/'' [''gzip'', ''br'']))) \<and>
   loadedHosts exampleConfig (reqHostname (exampleGet ''plain.example'' ''/../etc/passwd'' [])) =
     Some \<lparr>root = ''/srv/site/'', branches = False\<rparr> \<and>
   hostMiddleware (loadedHosts exampleConfig) (exampleGet ''plain.example'' ''/../etc/passwd'' []) =
     Inr \<lparr>logicalPath = None, reqRoot = ''/srv/site/''\<rparr> \<and>
   \<not> forbiddenChar ''/../etc/passwd'' \<and>
   \<not> paramError (reqPath (exampleGet ''plain.example'' ''/../etc/passwd'' [])) \<and>
   path_join [''/srv/site/'', ''/../etc/passwd''] = ''/srv/etc/passwd'' \<and>
   safeJoin (root \<lparr>root = ''/srv/site/'', branches = False\<rparr>)
     (pathNameOf (exampleGet ''plain.example'' ''/../etc/passwd'' [])
        \<lparr>logicalPath = None, reqRoot = ''/srv/site/''\<rparr>) = None \<and>
   status (fst (serve exampleConfig exampleFs
      (exampleGet ''plain.example'' ''/../etc/passwd'' []))) = 404 \<and>
   body (fst (serve exampleConfig exampleFs
      (exampleGet ''plain.example'' ''/../etc/passwd'' []))) = ''404 Not Found'' \<and>
   snd (serve exampleConfig exampleFs (exampleGet ''plain.example'' ''/../etc/passwd'' [])) = []"
proof -
  let ?h = "\<lparr>root = ''/srv/site/'', branches = False\<rparr>"
  let ?b = "exampleGet ''plain.example'' ''/blog/'' [''gzip'', ''br'']"
  let ?t = "exampleGet ''plain.example'' ''/../etc/passwd'' []"
  let ?rt = "\<lparr>logicalPath = None, reqRoot = ''/srv/site/''\<rparr>"
  have hb: "loadedHosts exampleConfig (reqHostname ?b) = Some ?h" by code_simp
  have ht: "loadedHosts exampleConfig (reqHostname ?t) = Some ?h" by code_simp
  have ab: "isAbsolute (root ?h)" by (simp add: isAbsolute_def)
  have cs: "snd (serve exampleConfig exampleFs ?b) =
     [Stat ''/srv/site/blog/'', Stat ''/srv/site/blog/index.html'',
      Stat ''/srv/site/blog/index.html.gz'', Stat ''/srv/site/blog/index.html.br'',
      Read ''/srv/site/blog/index.html.br'']"
    by code_simp
  have "\<forall>c \<in> set (snd (serve exampleConfig exampleFs ?b)). prefix (root ?h) (call_path c)"
    by (rule mp [OF C2_paths_within_root [OF hb, of exampleFs, THEN conjunct2, THEN conjunct2,
          THEN conjunct1] ab])
  then have al: "list_all (\<lambda>c. prefix (root ?h) (call_path c))
      (snd (serve exampleConfig exampleFs ?b))"
    by (simp only: list_all_iff)
  have "\<not> isl (hostMiddleware (loadedHosts exampleConfig) ?t)"
    "logicalPath (projr (hostMiddleware (loadedHosts exampleConfig) ?t)) = None"
    "reqRoot (projr (hostMiddleware (loadedHosts exampleConfig) ?t)) = ''/srv/site/''"
    by code_simp+
  then have m: "hostMiddleware (loadedHosts exampleConfig) ?t = Inr ?rt"
    by (rule hostMiddleware_InrI)
  have nf: "\<not> forbiddenChar ''/../etc/passwd''" by code_simp
  have pe: "\<not> paramError (reqPath ?t)" by code_simp
  have pj: "path_join [''/srv/site/'', ''/../etc/passwd''] = ''/srv/etc/passwd''" by code_simp
  have sj: "safeJoin (root ?h) (pathNameOf ?t ?rt) = None" by code_simp
  from C2_paths_within_root [OF ht, of exampleFs, THEN conjunct2, THEN conjunct2,
      THEN conjunct2, THEN conjunct2]
  obtain rt where x:
    "hostMiddleware (loadedHosts exampleConfig) ?t = Inr rt \<and>
     reqRoot rt = root ?h \<and>
     (snd (serve exampleConfig exampleFs ?t) \<noteq> [] \<longrightarrow>
        prefix (root ?h) (path_join [root ?h, pathNameOf ?t rt])) \<and>
     (safeJoin (root ?h) (pathNameOf ?t rt) = None \<and> \<not> paramError (reqPath ?t) \<longrightarrow>
        status (fst (serve exampleConfig exampleFs ?t)) = 404 \<and>
        body (fst (serve exampleConfig exampleFs ?t)) = ''404 Not Found'' \<and>
        snd (serve exampleConfig exampleFs ?t) = [])"
    by (rule exE)
  from x [THEN conjunct1] m have e: "rt = ?rt" by simp
  note i = x [THEN conjunct2, THEN conjunct2, THEN conjunct2, unfolded e]
  note r = mp [OF i conjI [OF sj pe]]
  note r1 = r [THEN conjunct1]
  note r2 = r [THEN conjunct2, THEN conjunct1]
  note r3 = r [THEN conjunct2, THEN conjunct2]
  show ?thesis
    by (rule conjI [OF hb conjI [OF ab conjI [OF cs conjI [OF al conjI [OF ht conjI [OF m
          conjI [OF nf conjI [OF pe conjI [OF pj conjI [OF sj conjI [OF r1 conjI [OF r2 r3]]]]]]]]]]]])
qed

text \<open>
  Why the statement speaks of absolute paths: a root configured as \<open>.\<close> is loaded as
  \<open>./\<close>, the request path \<open>//\<close> joins to \<open>./\<close>, and the index file of that directory is
  looked up as \<open>index.html\<close>, the same file under a name that does not begin with \<open>./\<close>.
\<close>

lemma relative_root_index_path:
  "path_join [''.'', ''/''] = ''./'' \<and>
   safeJoin ''./'' ''//'' = Some ''./'' \<and>
   path_join [''./'', ''index.html''] = ''index.html'' \<and>
   \<not> prefix ''./'' ''index.html'' \<and>
   \<not> isAbsolute ''index.html''"
  by code_simp

subsection \<open>The character filter\<close>

text \<open>
  Claim C3 says that the filter lets the underscore pass, so that a path made from a
  branch prefix such as \<open>/my_branch/\<close> goes on to resolution. The class in the code is
  \<open>[a-zA-Z0-9.\-\/~]\<close>, without the underscore: the request \<open>/my_branch/\<close> gets the logical
  path \<open>/my_branch/index.html\<close>, which the filter rejects; the answer is 404 and the
  file, which exists, is never looked for.
\<close>

theorem C3_underscore_counterexample:
  "stripBranch True ''/my_branch/'' = (''/my_branch'', ''/'') \<and>
   logicalPath (projr (hostMiddleware (loadedHosts exampleConfig)
      (exampleGet ''example.com'' ''/my_branch/'' []))) = Some ''/my_branch/index.html'' \<and>
   \<not> path_char CHR ''_'' \<and>
   forbiddenChar ''/my_branch/index.html'' \<and>
   map_option kind (statFile exampleFs ''/var/www/my_branch/index.html'') = Some RegularFile \<and>
   status (fst (serve exampleConfig exampleFs (exampleGet ''example.com'' ''/my_branch/'' []))) = 404 \<and>
   body (fst (serve exampleConfig exampleFs (exampleGet ''example.com'' ''/my_branch/'' []))) =
     ''404 Not Found'' \<and>
   snd (serve exampleConfig exampleFs (exampleGet ''example.com'' ''/my_branch/'' [])) = []"
  by code_simp

text \<open>
  Claim C3, amended. In the file handler the filter rejects a path exactly when it
  contains a character outside \<open>[a-zA-Z0-9.\-/~]\<close>; the underscore is outside. The
  handler then calls \<open>next()\<close> before any join or file system call, and a request that
  the router has brought as far as the handlers (its route parameter decodes) is
  answered 404. A path that passes goes on to \<open>safeJoin\<close>, and when the join succeeds
  the first file system call is the \<open>stat\<close> of the joined path.
\<close>

theorem C3_character_filter:
  "(forbiddenChar pathName \<longleftrightarrow>
      (\<exists>c \<in> set pathName.
         c \<notin> set (''abcdefghijklmnopqrstuvwxyz'' @ ''ABCDEFGHIJKLMNOPQRSTUVWXYZ'' @
                  ''0123456789'' @ ''.-/~''))) \<and>
   (CHR ''_'' \<in> set pathName \<longrightarrow> forbiddenChar pathName) \<and>
   (forbiddenChar (pathNameOf req rt) \<longrightarrow> fileHandler types fs req rt h0 = (Next, [])) \<and>
   (forbiddenChar (pathNameOf req rt) \<and> hostMiddleware (loadedHosts cfg) req = Inr rt \<and>
    \<not> paramError (reqPath req) \<longrightarrow>
      status (fst (serve cfg fs req)) = 404 \<and>
      body (fst (serve cfg fs req)) = ''404 Not Found'' \<and>
      snd (serve cfg fs req) = []) \<and>
   (\<not> forbiddenChar (pathNameOf req rt) \<longrightarrow>
      (\<forall>p. safeJoin (reqRoot rt) (pathNameOf req rt) = Some p \<longrightarrow>
         (\<exists>out calls. fileHandler types fs req rt h0 = (out, Stat p # calls))))"
proof -
  have 1: "forbiddenChar pathName \<longleftrightarrow>
      (\<exists>c \<in> set pathName.
         c \<notin> set (''abcdefghijklmnopqrstuvwxyz'' @ ''ABCDEFGHIJKLMNOPQRSTUVWXYZ'' @
                  ''0123456789'' @ ''.-/~''))"
    unfolding forbiddenChar_def path_char_enum ..
  have "\<not> path_char CHR ''_''" by code_simp
  then have 2: "CHR ''_'' \<in> set pathName \<longrightarrow> forbiddenChar pathName"
    unfolding forbiddenChar_def by blast
  have 3: "forbiddenChar (pathNameOf req rt) \<longrightarrow> fileHandler types fs req rt h0 = (Next, [])"
    by (simp add: fileHandler_def)
  have 4: "forbiddenChar (pathNameOf req rt) \<and> hostMiddleware (loadedHosts cfg) req = Inr rt \<and>
    \<not> paramError (reqPath req) \<longrightarrow>
      status (fst (serve cfg fs req)) = 404 \<and>
      body (fst (serve cfg fs req)) = ''404 Not Found'' \<and>
      snd (serve cfg fs req) = []"
  proof
    assume a: "forbiddenChar (pathNameOf req rt) \<and> hostMiddleware (loadedHosts cfg) req = Inr rt \<and>
      \<not> paramError (reqPath req)"
    then have m: "hostMiddleware (loadedHosts cfg) req = Inr rt"
      and pe: "\<not> paramError (reqPath req)" by simp_all
    from a have "routedAsGet (reqMethod req) \<longrightarrow>
         fileHandler (loadedFileTypes cfg) fs req rt (cacheControlRoutes (reqPath req) Map.empty) =
           (Next, [])"
      by (simp add: fileHandler_def)
    from serve_Next [OF m pe this]
    show "status (fst (serve cfg fs req)) = 404 \<and>
      body (fst (serve cfg fs req)) = ''404 Not Found'' \<and>
      snd (serve cfg fs req) = []" by simp
  qed
  have 5: "\<not> forbiddenChar (pathNameOf req rt) \<longrightarrow>
      (\<forall>p. safeJoin (reqRoot rt) (pathNameOf req rt) = Some p \<longrightarrow>
         (\<exists>out calls. fileHandler types fs req rt h0 = (out, Stat p # calls)))"
  proof (intro impI allI)
    fix p
    assume nf: "\<not> forbiddenChar (pathNameOf req rt)"
      and sj: "safeJoin (reqRoot rt) (pathNameOf req rt) = Some p"
    from findFile_first_call obtain found calls where ff: "findFile fs p = (found, Stat p # calls)"
      by blast
    show "\<exists>out calls. fileHandler types fs req rt h0 = (out, Stat p # calls)"
    proof (cases found)
      case None
      with nf sj ff show ?thesis by (simp add: fileHandler_def)
    next
      case (Some f)
      obtain out calls' where "sendFile types fs req h0 f = (out, calls')"
        by (cases "sendFile types fs req h0 f")
      with Some nf sj ff show ?thesis by (simp add: fileHandler_def)
    qed
  qed
  show ?thesis by (rule conjI [OF 1 conjI [OF 2 conjI [OF 3 conjI [OF 4 5]]]])
qed

text \<open>
  The rejected logical path \<open>/my_branch/index.html\<close>, and the accepted path \<open>/logo.png\<close>,
  whose first file system call is the \<open>stat\<close> of the joined path.
\<close>

theorem C3_character_filter_witness:
  "CHR ''_'' \<in> set ''/my_branch/index.html'' \<and>
   forbiddenChar ''/my_branch/index.html'' \<and>
   hostMiddleware (loadedHosts exampleConfig) (exampleGet ''example.com'' ''/my_branch/'' []) =
     Inr \<lparr>logicalPath = Some ''/my_branch/index.html'', reqRoot = ''/var/www/''\<rparr> \<and>
   forbiddenChar (pathNameOf (exampleGet ''example.com'' ''/my_branch/'' [])
     \<lparr>logicalPath = Some ''/my_branch/index.html'', reqRoot = ''/var/www/''\<rparr>) \<and>
   fileHandler (loadedFileTypes exampleConfig) exampleFs (exampleGet ''example.com'' ''/my_branch/'' [])
     \<lparr>logicalPath = Some ''/my_branch/index.html'', reqRoot = ''/var/www/''\<rparr> Map.empty =
     (Next, []) \<and>
   \<not> paramError (reqPath (exampleGet ''example.com'' ''/my_branch/'' [])) \<and>
   status (fst (serve exampleConfig exampleFs (exampleGet ''example.com'' ''/my_branch/'' []))) = 404 \<and>
   \<not> forbiddenChar (pathNameOf (exampleGet ''plain.example'' ''/logo.png'' [])
     \<lparr>logicalPath = None, reqRoot = ''/srv/site/''\<rparr>) \<and>
   safeJoin (reqRoot \<lparr>logicalPath = None, reqRoot = ''/srv/site/''\<rparr>)
     (pathNameOf (exampleGet ''plain.example'' ''/logo.png'' [])
        \<lparr>logicalPath = None, reqRoot = ''/srv/site/''\<rparr>) = Some ''/srv/site/logo.png'' \<and>
   (\<exists>out calls.
      fileHandler (loadedFileTypes exampleConfig) exampleFs (exampleGet ''plain.example'' ''/logo.png'' [])
        \<lparr>logicalPath = None, reqRoot = ''/srv/site/''\<rparr> Map.empty =
        (out, Stat ''/srv/site/logo.png'' # calls))"
proof -
  let ?b = "exampleGet ''example.com'' ''/my_branch/'' []"
  let ?rb = "\<lparr>logicalPath = Some ''/my_branch/index.html'', reqRoot = ''/var/www/''\<rparr>"
  let ?q = "exampleGet ''plain.example'' ''/logo.png'' []"
  let ?rq = "\<lparr>logicalPath = None, reqRoot = ''/srv/site/''\<rparr>"
  have u: "CHR ''_'' \<in> set ''/my_branch/index.html''" by simp
  have "\<not> isl (hostMiddleware (loadedHosts exampleConfig) ?b)"
    "logicalPath (projr (hostMiddleware (loadedHosts exampleConfig) ?b)) = Some ''/my_branch/index.html''"
    "reqRoot (projr (hostMiddleware (loadedHosts exampleConfig) ?b)) = ''/var/www/''"
    by code_simp+
  then have m: "hostMiddleware (loadedHosts exampleConfig) ?b = Inr ?rb"
    by (rule hostMiddleware_InrI)
  have pn: "pathNameOf ?b ?rb = ''/my_branch/index.html''" by (simp add: pathNameOf_def)
  from C3_character_filter [of "''/my_branch/index.html''"] u
  have f: "forbiddenChar ''/my_branch/index.html''" by blast
  with pn have fp: "forbiddenChar (pathNameOf ?b ?rb)" by simp
  have pe: "\<not> paramError (reqPath ?b)" by code_simp
  from C3_character_filter [of "[]" ?b ?rb "loadedFileTypes exampleConfig" exampleFs Map.empty exampleConfig]
    fp m pe
  have n: "fileHandler (loadedFileTypes exampleConfig) exampleFs ?b ?rb Map.empty = (Next, [])"
    and s: "status (fst (serve exampleConfig exampleFs ?b)) = 404"
    by blast+
  have nq: "\<not> forbiddenChar (pathNameOf ?q ?rq)" by code_simp
  have sj: "safeJoin (reqRoot ?rq) (pathNameOf ?q ?rq) = Some ''/srv/site/logo.png''" by code_simp
  from C3_character_filter [of "[]" ?q ?rq "loadedFileTypes exampleConfig" exampleFs Map.empty exampleConfig]
    nq sj
  have c: "\<exists>out calls.
      fileHandler (loadedFileTypes exampleConfig) exampleFs ?q ?rq Map.empty =
        (out, Stat ''/srv/site/logo.png'' # calls)"
    by blast
  show ?thesis
    by (rule conjI [OF u conjI [OF f conjI [OF m conjI [OF fp conjI [OF n conjI [OF pe
          conjI [OF s conjI [OF nq conjI [OF sj c]]]]]]]]])
qed

subsection \<open>The chosen encoding\<close>



subsection \<open>The logical path\<close>

text \<open>
  Claim C5. With \<open>pre\<close> the stripped branch prefix (empty when branches are off or no
  branch segment leads the path) and \<open>rest\<close> the remaining path, the alias rules apply in
  order, the first match winning: an index path maps to \<open>pre/index.html\<close>, a word path
  for \<open>editor\<close> to \<open>pre/editor.html\<close>, a word path for \<open>fullscreen\<close> to
  \<open>pre/fullscreen.html\<close>; when none matches, no logical path is set and the original
  request path is used as it is.
\<close>

theorem C5_logical_path_mapper:
  assumes "hs (reqHostname req) = Some h"
    and "stripBranch (branches h) (reqPath req) = (pre, rest)"
    and "hostMiddleware hs req = Inr rt"
  shows "logicalPath rt =
           (if specIndexPath rest then Some (pre @ ''/index.html'')
            else if specWordPath ''editor'' rest then Some (pre @ ''/editor.html'')
            else if specWordPath ''fullscreen'' rest then Some (pre @ ''/fullscreen.html'')
            else None) \<and>
         pathNameOf req rt =
           (if specIndexPath rest then pre @ ''/index.html''
            else if specWordPath ''editor'' rest then pre @ ''/editor.html''
            else if specWordPath ''fullscreen'' rest then pre @ ''/fullscreen.html''
            else reqPath req) \<and>
         ((pre = [] \<and> rest = reqPath req \<and>
           \<not> (branches h \<and>
              (\<exists>bn r. bn \<noteq> [] \<and> (\<forall>c \<in> set bn. branch_char c) \<and>
                      reqPath req = ''/'' @ bn @ ''/'' @ r))) \<or>
          (branches h \<and>
           (\<exists>bn r. bn \<noteq> [] \<and> (\<forall>c \<in> set bn. branch_char c) \<and>
                   pre = ''/'' @ bn \<and> rest = ''/'' @ r \<and> reqPath req = pre @ rest)))"
proof -
  from hostMiddleware_known [where hs = hs and req = req, OF assms(1,2)] assms(3)
  have rt: "rt = \<lparr>logicalPath =
            (if specIndexPath rest then Some (pre @ ''/index.html'')
             else if specWordPath ''editor'' rest then Some (pre @ ''/editor.html'')
             else if specWordPath ''fullscreen'' rest then Some (pre @ ''/fullscreen.html'')
             else None),
          reqRoot = root h\<rparr>"
    by simp
  have 1: "logicalPath rt =
           (if specIndexPath rest then Some (pre @ ''/index.html'')
            else if specWordPath ''editor'' rest then Some (pre @ ''/editor.html'')
            else if specWordPath ''fullscreen'' rest then Some (pre @ ''/fullscreen.html'')
            else None)"
    by (simp add: rt)
  have 2: "pathNameOf req rt =
           (if specIndexPath rest then pre @ ''/index.html''
            else if specWordPath ''editor'' rest then pre @ ''/editor.html''
            else if specWordPath ''fullscreen'' rest then pre @ ''/fullscreen.html''
            else reqPath req)"
    by (simp add: pathNameOf_def 1)
  have 3: "(pre = [] \<and> rest = reqPath req \<and>
           \<not> (branches h \<and>
              (\<exists>bn r. bn \<noteq> [] \<and> (\<forall>c \<in> set bn. branch_char c) \<and>
                      reqPath req = ''/'' @ bn @ ''/'' @ r))) \<or>
          (branches h \<and>
           (\<exists>bn r. bn \<noteq> [] \<and> (\<forall>c \<in> set bn. branch_char c) \<and>
                   pre = ''/'' @ bn \<and> rest = ''/'' @ r \<and> reqPath req = pre @ rest))"
    using stripBranch_cases [OF assms(2)]
  proof
    assume a: "pre = [] \<and> rest = reqPath req \<and> (branches h \<longrightarrow> branchMatch (reqPath req) = None)"
    have "\<not> (branches h \<and>
              (\<exists>bn r. bn \<noteq> [] \<and> (\<forall>c \<in> set bn. branch_char c) \<and>
                      reqPath req = ''/'' @ bn @ ''/'' @ r))"
    proof
      assume "branches h \<and>
              (\<exists>bn r. bn \<noteq> [] \<and> (\<forall>c \<in> set bn. branch_char c) \<and>
                      reqPath req = ''/'' @ bn @ ''/'' @ r)"
      then obtain bn where "branches h" "branchMatch (reqPath req) = Some bn"
        unfolding branchMatch_iff by blast
      with a show False by simp
    qed
    with a show ?thesis by blast
  next
    assume "branches h \<and> (\<exists>bn r. branchMatch (reqPath req) = Some bn \<and> pre = ''/'' @ bn \<and>
        rest = ''/'' @ r \<and> reqPath req = pre @ rest)"
    then obtain bn r where b: "branches h" and bm: "branchMatch (reqPath req) = Some bn"
      and e: "pre = ''/'' @ bn" "rest = ''/'' @ r" "reqPath req = pre @ rest" by blast
    from bm have "bn \<noteq> [] \<and> (\<forall>c \<in> set bn. branch_char c)" unfolding branchMatch_iff by blast
    with b e show ?thesis by blast
  qed
  show ?thesis by (rule conjI [OF 1 conjI [OF 2 3]])
qed

text \<open>
  The request \<open>/feature-x/3/\<close> to a host with branches: the prefix is \<open>/feature-x\<close>, the
  rest \<open>/3/\<close> is an index path, and the logical path is \<open>/feature-x/index.html\<close>.
  Without branches, \<open>/12/Editor\<close> and \<open>/EDITOR/\<close> map to \<open>/editor.html\<close>, \<open>/7\<close> to
  \<open>/index.html\<close>, \<open>/fullscreen/\<close> to \<open>/fullscreen.html\<close>, and \<open>/logo.png\<close> is left alone.
\<close>

theorem C5_logical_path_mapper_witness:
  "loadedHosts exampleConfig (reqHostname (exampleGet ''example.com'' ''/feature-x/3/'' [])) =
     Some \<lparr>root = ''/var/www/'', branches = True\<rparr> \<and>
   stripBranch (branches \<lparr>root = ''/var/www/'', branches = True\<rparr>)
     (reqPath (exampleGet ''example.com'' ''/feature-x/3/'' [])) = (''/feature-x'', ''/3/'') \<and>
   hostMiddleware (loadedHosts exampleConfig) (exampleGet ''example.com'' ''/feature-x/3/'' []) =
     Inr \<lparr>logicalPath = Some ''/feature-x/index.html'', reqRoot = ''/var/www/''\<rparr> \<and>
   specIndexPath ''/3/'' \<and>
   pathNameOf (exampleGet ''example.com'' ''/feature-x/3/'' [])
     \<lparr>logicalPath = Some ''/feature-x/index.html'', reqRoot = ''/var/www/''\<rparr> =
     ''/feature-x'' @ ''/index.html'' \<and>
   map (\<lambda>p. logicalPath (projr (hostMiddleware (loadedHosts exampleConfig)
                                   (exampleGet ''plain.example'' p []))))
     [''/'', ''/7'', ''/7/'', ''/editor'', ''/EDITOR/'', ''/12/Editor'', ''/fullscreen/'',
      ''/3/FullScreen'', ''/logo.png'', ''//'', ''/editor/x''] =
     [Some ''/index.html'', Some ''/index.html'', Some ''/index.html'', Some ''/editor.html'',
      Some ''/editor.html'', Some ''/editor.html'', Some ''/fullscreen.html'',
      Some ''/fullscreen.html'', None, None, None]"
proof -
  let ?r = "exampleGet ''example.com'' ''/feature-x/3/'' []"
  let ?h = "\<lparr>root = ''/var/www/'', branches = True\<rparr>"
  let ?rt = "\<lparr>logicalPath = Some ''/feature-x/index.html'', reqRoot = ''/var/www/''\<rparr>"
  have h1: "loadedHosts exampleConfig (reqHostname ?r) = Some ?h" by code_simp
  have h2: "stripBranch (branches ?h) (reqPath ?r) = (''/feature-x'', ''/3/'')" by code_simp
  have "\<not> isl (hostMiddleware (loadedHosts exampleConfig) ?r)"
    "logicalPath (projr (hostMiddleware (loadedHosts exampleConfig) ?r)) = Some ''/feature-x/index.html''"
    "reqRoot (projr (hostMiddleware (loadedHosts exampleConfig) ?r)) = ''/var/www/''"
    by code_simp+
  then have h3: "hostMiddleware (loadedHosts exampleConfig) ?r = Inr ?rt"
    by (rule hostMiddleware_InrI)
  have ix: "specIndexPath ''/3/''"
  proof -
    have "''3'' \<noteq> [] \<and> (\<forall>c \<in> set ''3''. is_digit c) \<and>
        (''/3/'' = ''/'' @ ''3'' \<or> ''/3/'' = ''/'' @ ''3'' @ ''/'')"
      by (simp add: is_digit_def)
    then show ?thesis unfolding specIndexPath_def by blast
  qed
  from C5_logical_path_mapper [OF h1 h2 h3] ix
  have pn: "pathNameOf ?r ?rt = ''/feature-x'' @ ''/index.html''" by simp
  have ex: "map (\<lambda>p. logicalPath (projr (hostMiddleware (loadedHosts exampleConfig)
                                   (exampleGet ''plain.example'' p []))))
     [''/'', ''/7'', ''/7/'', ''/editor'', ''/EDITOR/'', ''/12/Editor'', ''/fullscreen/'',
      ''/3/FullScreen'', ''/logo.png'', ''//'', ''/editor/x''] =
     [Some ''/index.html'', Some ''/index.html'', Some ''/index.html'', Some ''/editor.html'',
      Some ''/editor.html'', Some ''/editor.html'', Some ''/fullscreen.html'',
      Some ''/fullscreen.html'', None, None, None]"
    by code_simp
  show ?thesis by (rule conjI [OF h1 conjI [OF h2 conjI [OF h3 conjI [OF ix conjI [OF pn ex]]]]])
qed

subsection \<open>Unknown hosts\<close>

text \<open>
  Claim C6. A request whose hostname is not a key of the host table is answered with
  status 400, content type \<open>text/plain\<close> and the body \<open>Invalid Host\<close>; the answer does
  not depend on the path, and no call to the file system is made for it.
\<close>

theorem C6_unknown_host:
  "hosts cfg (reqHostname req) = None \<Longrightarrow>
   serve cfg fs req =
     (\<lparr>status = 400, headers = [''Content-Type'' \<mapsto> Text ''text/plain''],
       body = ''Invalid Host''\<rparr>, [])"
  by (simp add: serve_def hostMiddleware_def loadedHosts_def invalidHost_def)

theorem C6_unknown_host_witness:
  "hosts exampleConfig (reqHostname (exampleGet ''evil.example.com'' ''/blog/'' [''br''])) = None \<and>
   serve exampleConfig exampleFs (exampleGet ''evil.example.com'' ''/blog/'' [''br'']) =
     (\<lparr>status = 400, headers = [''Content-Type'' \<mapsto> Text ''text/plain''],
       body = ''Invalid Host''\<rparr>, [])"
proof -
  have h: "hosts exampleConfig (reqHostname (exampleGet ''evil.example.com'' ''/blog/'' [''br''])) = None"
    by (simp add: exampleConfig_def exampleGet_def)
  from h C6_unknown_host [OF h, of exampleFs] show ?thesis by simp
qed

subsection \<open>Directories and their index file\<close>





subsection \<open>Last-Modified\<close>

text \<open>
  Claim C8. On every successful response the Last-Modified header carries the
  modification time of the file that \<open>findFile\<close> returned, whether the body is read from
  that file or from a chosen encoded variant.
\<close>

theorem C8_last_modified:
  assumes "status (fst (serve cfg fs req)) = 200"
  shows "\<exists>rt p found ft.
           hostMiddleware (loadedHosts cfg) req = Inr rt \<and>
           safeJoin (reqRoot rt) (pathNameOf req rt) = Some p \<and>
           fst (findFile fs p) = Some found \<and>
           getFileType (loadedFileTypes cfg) (path found) = Some ft \<and>
           headers (fst (serve cfg fs req)) ''Last-Modified'' = Some (HttpDate (mtime (stat found))) \<and>
           (case fst (chooseEncoding fs (reqAcceptsEncodings req) (encodings ft) (path found)) of
              None \<Rightarrow> readFile fs (path found) = Some (body (fst (serve cfg fs req)))
            | Some b \<Rightarrow> readFile fs (path b) = Some (body (fst (serve cfg fs req))))"
proof -
  from serve_200_unfolded [OF assms] obtain rt p found calls1 ft best calls2 where
    a: "hostMiddleware (loadedHosts cfg) req = Inr rt"
       "safeJoin (reqRoot rt) (pathNameOf req rt) = Some p"
       "findFile fs p = (Some found, calls1)"
       "getFileType (loadedFileTypes cfg) (path found) = Some ft"
       "chooseEncoding fs (reqAcceptsEncodings req) (encodings ft) (path found) = (best, calls2)"
       "readFile fs (case best of None \<Rightarrow> path found | Some b \<Rightarrow> path b) =
             Some (body (fst (serve cfg fs req)))"
       "headers (fst (serve cfg fs req)) =
             fileHeaders (cacheControlRoutes (reqPath req) Map.empty) ft (mtime (stat found))
               (map_option chosenName best)"
    by blast
  have "headers (fst (serve cfg fs req)) ''Last-Modified'' = Some (HttpDate (mtime (stat found)))"
    by (simp only: a(7) fileHeaders_Last_Modified)
  moreover have "case fst (chooseEncoding fs (reqAcceptsEncodings req) (encodings ft) (path found)) of
              None \<Rightarrow> readFile fs (path found) = Some (body (fst (serve cfg fs req)))
            | Some b \<Rightarrow> readFile fs (path b) = Some (body (fst (serve cfg fs req)))"
    using a(5,6) by (cases best) simp_all
  ultimately show ?thesis using a(1-4) by auto
qed

text \<open>
  The directory \<open>/blog/\<close> for a client that accepts Brotli: the body is the variant
  (modified at 9), the header is the time of the index file (7).
\<close>

theorem C8_last_modified_witness:
  "status (fst (serve exampleConfig exampleFs
      (exampleGet ''plain.example'' ''/blog/'' [''gzip'', ''br'']))) = 200 \<and>
   (\<exists>rt p found ft.
      hostMiddleware (loadedHosts exampleConfig)
        (exampleGet ''plain.example'' ''/blog/'' [''gzip'', ''br'']) = Inr rt \<and>
      safeJoin (reqRoot rt)
        (pathNameOf (exampleGet ''plain.example'' ''/blog/'' [''gzip'', ''br'']) rt) = Some p \<and>
      fst (findFile exampleFs p) = Some found \<and>
      getFileType (loadedFileTypes exampleConfig) (path found) = Some ft \<and>
      headers (fst (serve exampleConfig exampleFs
        (exampleGet ''plain.example'' ''/blog/'' [''gzip'', ''br'']))) ''Last-Modified'' =
        Some (HttpDate (mtime (stat found)))) \<and>
   headers (fst (serve exampleConfig exampleFs
      (exampleGet ''plain.example'' ''/blog/'' [''gzip'', ''br'']))) ''Last-Modified'' =
      Some (HttpDate 7) \<and>
   body (fst (serve exampleConfig exampleFs
      (exampleGet ''plain.example'' ''/blog/'' [''gzip'', ''br'']))) = ''brotli bytes'' \<and>
   map_option mtime (statFile exampleFs ''/srv/site/blog/index.html.br'') = Some 9"
proof -
  let ?r = "exampleGet ''plain.example'' ''/blog/'' [''gzip'', ''br'']"
  have h: "status (fst (serve exampleConfig exampleFs ?r)) = 200" by code_simp
  have lm: "headers (fst (serve exampleConfig exampleFs ?r)) ''Last-Modified'' = Some (HttpDate 7)"
    by code_simp
  have b: "body (fst (serve exampleConfig exampleFs ?r)) = ''brotli bytes''" by code_simp
  have v: "map_option mtime (statFile exampleFs ''/srv/site/blog/index.html.br'') = Some 9"
    by (simp add: exampleFs_def)
  from C8_last_modified [OF h] have "\<exists>rt p found ft.
      hostMiddleware (loadedHosts exampleConfig) ?r = Inr rt \<and>
      safeJoin (reqRoot rt) (pathNameOf ?r rt) = Some p \<and>
      fst (findFile exampleFs p) = Some found \<and>
      getFileType (loadedFileTypes exampleConfig) (path found) = Some ft \<and>
      headers (fst (serve exampleConfig exampleFs ?r)) ''Last-Modified'' =
        Some (HttpDate (mtime (stat found)))"
    by blast
  with h lm b v show ?thesis by blast
qed

subsection \<open>Vary and Content-Encoding\<close>

text \<open>
  Claim C9. On a successful response the header \<open>Vary: Accept-Encoding\<close> is present
  exactly when the type of the resolved file has at least one configured encoding,
  whether or not an encoding was applied; Content-Encoding is present exactly when
  \<open>chooseEncoding\<close> returned a variant, and then names it.
\<close>

theorem C9_vary_content_encoding:
  assumes "status (fst (serve cfg fs req)) = 200"
  shows "\<exists>rt p found ft.
           hostMiddleware (loadedHosts cfg) req = Inr rt \<and>
           safeJoin (reqRoot rt) (pathNameOf req rt) = Some p \<and>
           fst (findFile fs p) = Some found \<and>
           getFileType (loadedFileTypes cfg) (path found) = Some ft \<and>
           (headers (fst (serve cfg fs req)) ''Vary'' = Some (Text ''Accept-Encoding'')
              \<longleftrightarrow> encodings ft \<noteq> []) \<and>
           (headers (fst (serve cfg fs req)) ''Vary'' = None \<longleftrightarrow> encodings ft = []) \<and>
           headers (fst (serve cfg fs req)) ''Content-Encoding'' =
             map_option (\<lambda>b. Text (chosenName b))
               (fst (chooseEncoding fs (reqAcceptsEncodings req) (encodings ft) (path found)))"
proof -
  from serve_200_unfolded [OF assms] obtain rt p found calls1 ft best calls2 where
    a: "hostMiddleware (loadedHosts cfg) req = Inr rt"
       "safeJoin (reqRoot rt) (pathNameOf req rt) = Some p"
       "findFile fs p = (Some found, calls1)"
       "getFileType (loadedFileTypes cfg) (path found) = Some ft"
       "chooseEncoding fs (reqAcceptsEncodings req) (encodings ft) (path found) = (best, calls2)"
       "headers (fst (serve cfg fs req)) =
             fileHeaders (cacheControlRoutes (reqPath req) Map.empty) ft (mtime (stat found))
               (map_option chosenName best)"
    by blast
  have v: "headers (fst (serve cfg fs req)) ''Vary'' =
      (if encodings ft \<noteq> [] then Some (Text ''Accept-Encoding'') else None)"
    by (simp add: a(6) fileHeaders_Vary cacheControlRoutes_other)
  have ce: "headers (fst (serve cfg fs req)) ''Content-Encoding'' =
      map_option (\<lambda>b. Text (chosenName b)) best"
    by (cases best) (simp_all add: a(6) fileHeaders_Content_Encoding cacheControlRoutes_other)
  from v have "headers (fst (serve cfg fs req)) ''Vary'' = Some (Text ''Accept-Encoding'')
              \<longleftrightarrow> encodings ft \<noteq> []"
    and "headers (fst (serve cfg fs req)) ''Vary'' = None \<longleftrightarrow> encodings ft = []"
    by simp_all
  with ce a(1-5) show ?thesis by auto
qed

text \<open>
  The directory \<open>/blog/\<close> for a client that accepts no encoding: HTML has configured
  encodings, so Vary is set, and no Content-Encoding is sent. The image, whose type has
  none, is sent without Vary.
\<close>

theorem C9_vary_content_encoding_witness:
  "status (fst (serve exampleConfig exampleFs
      (exampleGet ''plain.example'' ''/blog/'' [''identity'']))) = 200 \<and>
   (\<exists>rt p found ft.
      hostMiddleware (loadedHosts exampleConfig)
        (exampleGet ''plain.example'' ''/blog/'' [''identity'']) = Inr rt \<and>
      safeJoin (reqRoot rt)
        (pathNameOf (exampleGet ''plain.example'' ''/blog/'' [''identity'']) rt) = Some p \<and>
      fst (findFile exampleFs p) = Some found \<and>
      getFileType (loadedFileTypes exampleConfig) (path found) = Some ft \<and>
      (headers (fst (serve exampleConfig exampleFs
          (exampleGet ''plain.example'' ''/blog/'' [''identity'']))) ''Vary'' =
          Some (Text ''Accept-Encoding'') \<longleftrightarrow> encodings ft \<noteq> [])) \<and>
   headers (fst (serve exampleConfig exampleFs
      (exampleGet ''plain.example'' ''/blog/'' [''identity'']))) ''Vary'' =
      Some (Text ''Accept-Encoding'') \<and>
   headers (fst (serve exampleConfig exampleFs
      (exampleGet ''plain.example'' ''/blog/'' [''identity'']))) ''Content-Encoding'' = None \<and>
   status (fst (serve exampleConfig exampleFs
      (exampleGet ''plain.example'' ''/logo.png'' [''gzip'', ''br'']))) = 200 \<and>
   headers (fst (serve exampleConfig exampleFs
      (exampleGet ''plain.example'' ''/logo.png'' [''gzip'', ''br'']))) ''Vary'' = None"
proof -
  let ?r = "exampleGet ''plain.example'' ''/blog/'' [''identity'']"
  let ?q = "exampleGet ''plain.example'' ''/logo.png'' [''gzip'', ''br'']"
  have h: "status (fst (serve exampleConfig exampleFs ?r)) = 200" by code_simp
  have v: "headers (fst (serve exampleConfig exampleFs ?r)) ''Vary'' = Some (Text ''Accept-Encoding'')"
    by code_simp
  have c: "headers (fst (serve exampleConfig exampleFs ?r)) ''Content-Encoding'' = None"
    by code_simp
  have s: "status (fst (serve exampleConfig exampleFs ?q)) = 200" by code_simp
  have n: "headers (fst (serve exampleConfig exampleFs ?q)) ''Vary'' = None" by code_simp
  from C9_vary_content_encoding [OF h] have "\<exists>rt p found ft.
      hostMiddleware (loadedHosts exampleConfig) ?r = Inr rt \<and>
      safeJoin (reqRoot rt) (pathNameOf ?r rt) = Some p \<and>
      fst (findFile exampleFs p) = Some found \<and>
      getFileType (loadedFileTypes exampleConfig) (path found) = Some ft \<and>
      (headers (fst (serve exampleConfig exampleFs ?r)) ''Vary'' =
          Some (Text ''Accept-Encoding'') \<longleftrightarrow> encodings ft \<noteq> [])"
    by blast
  with h v c s n show ?thesis by blast
qed

subsection \<open>Digit segments under branches\<close>

text \<open>
  Claim C10. With branches enabled, a first segment of digits that is followed by a slash
  is taken as the branch prefix and stays at the head of the logical path: \<open>/123/\<close> maps to
  \<open>/123/index.html\<close> and \<open>/123/editor\<close> to \<open>/123/editor.html\<close>. With branches disabled
  the same paths match the optional digit segment of the alias rules and map to
  \<open>/index.html\<close> and \<open>/editor.html\<close>.
\<close>

theorem C10_digit_segment_branch:
  assumes "hs (reqHostname req) = Some h"
    and "hostMiddleware hs req = Inr rt"
    and "ds \<noteq> []"
    and "\<forall>c \<in> set ds. is_digit c"
  shows "(branches h \<and> reqPath req = ''/'' @ ds @ ''/'' @ r \<longrightarrow>
            stripBranch (branches h) (reqPath req) = (''/'' @ ds, ''/'' @ r) \<and>
            prefix (''/'' @ ds @ ''/'') (pathNameOf req rt)) \<and>
         (branches h \<and> reqPath req = ''/'' @ ds @ ''/'' \<longrightarrow>
            pathNameOf req rt = ''/'' @ ds @ ''/index.html'') \<and>
         (branches h \<and> reqPath req = ''/'' @ ds @ ''/editor'' \<longrightarrow>
            pathNameOf req rt = ''/'' @ ds @ ''/editor.html'') \<and>
         (\<not> branches h \<and> reqPath req = ''/'' @ ds @ ''/'' \<longrightarrow>
            pathNameOf req rt = ''/index.html'') \<and>
         (\<not> branches h \<and> reqPath req = ''/'' @ ds @ ''/editor'' \<longrightarrow>
            pathNameOf req rt = ''/editor.html'')"
proof -
  have bc: "\<forall>c \<in> set ds. branch_char c" using assms(4) by (simp add: digit_branch)
  have ed: "specWordPath ''editor'' ''/editor''"
  proof -
    have "map canonicalize ''editor'' = map canonicalize ''editor'' \<and> ([] = [] \<or> [] = ''/'') \<and>
        ''/editor'' = ''/'' @ ''editor'' @ []" by simp
    then show ?thesis unfolding specWordPath_def by blast
  qed
  have ded: "specWordPath ''editor'' (''/'' @ ds @ ''/editor'')"
  proof -
    have "ds \<noteq> [] \<and> (\<forall>c \<in> set ds. is_digit c) \<and>
        ''/'' @ ds @ ''/editor'' = ''/'' @ ds @ ''/'' @ ''editor'' @ []"
      using assms(3,4) by simp
    then have "map canonicalize ''editor'' = map canonicalize ''editor'' \<and> ([] = [] \<or> [] = ''/'') \<and>
        (''/'' @ ds @ ''/editor'' = ''/'' @ ''editor'' @ [] \<or>
         (\<exists>ds'. ds' \<noteq> [] \<and> (\<forall>c \<in> set ds'. is_digit c) \<and>
            ''/'' @ ds @ ''/editor'' = ''/'' @ ds' @ ''/'' @ ''editor'' @ []))"
      by blast
    then show ?thesis unfolding specWordPath_def by blast
  qed
  have ned: "\<not> specIndexPath ''/editor''"
    unfolding indexAlias_iff [symmetric] by code_simp
  have dix: "specIndexPath (''/'' @ ds @ ''/'')"
    unfolding specIndexPath_def using assms(3,4) by blast
  have nded: "\<not> specIndexPath (''/'' @ ds @ ''/editor'')"
  proof
    assume "specIndexPath (''/'' @ ds @ ''/editor'')"
    then have "\<forall>c \<in> set (''/'' @ ds @ ''/editor''). is_digit c \<or> c = CHR ''/''"
      by (rule specIndexPath_chars)
    then have "is_digit CHR ''e''" by simp
    then show False by (simp add: is_digit_def)
  qed
  have ix: "specIndexPath ''/''" by (simp add: specIndexPath_def)
  have 1: "branches h \<and> reqPath req = ''/'' @ ds @ ''/'' @ r \<longrightarrow>
            stripBranch (branches h) (reqPath req) = (''/'' @ ds, ''/'' @ r) \<and>
            prefix (''/'' @ ds @ ''/'') (pathNameOf req rt)"
  proof
    assume a: "branches h \<and> reqPath req = ''/'' @ ds @ ''/'' @ r"
    then have sb: "stripBranch (branches h) (reqPath req) = (''/'' @ ds, ''/'' @ r)"
      using stripBranch_match [OF assms(3) bc, of r] by simp
    from hostMiddleware_known [where hs = hs and req = req, OF assms(1) sb] assms(2)
    have "pathNameOf req rt =
           (if specIndexPath (''/'' @ r) then (''/'' @ ds) @ ''/index.html''
            else if specWordPath ''editor'' (''/'' @ r) then (''/'' @ ds) @ ''/editor.html''
            else if specWordPath ''fullscreen'' (''/'' @ r) then (''/'' @ ds) @ ''/fullscreen.html''
            else reqPath req)"
      by (auto simp: pathNameOf_def)
    with a have "prefix (''/'' @ ds @ ''/'') (pathNameOf req rt)" by auto
    with sb show "stripBranch (branches h) (reqPath req) = (''/'' @ ds, ''/'' @ r) \<and>
            prefix (''/'' @ ds @ ''/'') (pathNameOf req rt)" by simp
  qed
  have 2: "branches h \<and> reqPath req = ''/'' @ ds @ ''/'' \<longrightarrow>
            pathNameOf req rt = ''/'' @ ds @ ''/index.html''"
  proof
    assume a: "branches h \<and> reqPath req = ''/'' @ ds @ ''/''"
    then have sb: "stripBranch (branches h) (reqPath req) = (''/'' @ ds, ''/'')"
      using stripBranch_match [OF assms(3) bc, of "[]"] by simp
    from hostMiddleware_known [where hs = hs and req = req, OF assms(1) sb] assms(2) ix
    show "pathNameOf req rt = ''/'' @ ds @ ''/index.html''"
      by (auto simp: pathNameOf_def)
  qed
  have 3: "branches h \<and> reqPath req = ''/'' @ ds @ ''/editor'' \<longrightarrow>
            pathNameOf req rt = ''/'' @ ds @ ''/editor.html''"
  proof
    assume a: "branches h \<and> reqPath req = ''/'' @ ds @ ''/editor''"
    then have sb: "stripBranch (branches h) (reqPath req) = (''/'' @ ds, ''/editor'')"
      using stripBranch_match [OF assms(3) bc, of "''editor''"] by simp
    from hostMiddleware_known [where hs = hs and req = req, OF assms(1) sb] assms(2) ed ned
    show "pathNameOf req rt = ''/'' @ ds @ ''/editor.html''"
      by (auto simp: pathNameOf_def)
  qed
  have 4: "\<not> branches h \<and> reqPath req = ''/'' @ ds @ ''/'' \<longrightarrow>
            pathNameOf req rt = ''/index.html''"
  proof
    assume a: "\<not> branches h \<and> reqPath req = ''/'' @ ds @ ''/''"
    then have sb: "stripBranch (branches h) (reqPath req) = ([], ''/'' @ ds @ ''/'')"
      by (simp add: stripBranch_def)
    from hostMiddleware_known [where hs = hs and req = req, OF assms(1) sb] assms(2) dix
    show "pathNameOf req rt = ''/index.html''"
      by (auto simp: pathNameOf_def)
  qed
  have 5: "\<not> branches h \<and> reqPath req = ''/'' @ ds @ ''/editor'' \<longrightarrow>
            pathNameOf req rt = ''/editor.html''"
  proof
    assume a: "\<not> branches h \<and> reqPath req = ''/'' @ ds @ ''/editor''"
    then have sb: "stripBranch (branches h) (reqPath req) = ([], ''/'' @ ds @ ''/editor'')"
      by (simp add: stripBranch_def)
    from hostMiddleware_known [where hs = hs and req = req, OF assms(1) sb] assms(2) ded nded
    show "pathNameOf req rt = ''/editor.html''"
      by (auto simp: pathNameOf_def)
  qed
  show ?thesis by (rule conjI [OF 1 conjI [OF 2 conjI [OF 3 conjI [OF 4 5]]]])
qed

text \<open>
  The paths \<open>/123/\<close> and \<open>/123/editor\<close>, sent to a host with branches and to a host
  without.
\<close>

theorem C10_digit_segment_branch_witness:
  "''123'' \<noteq> [] \<and> list_all is_digit ''123'' \<and>
   loadedHosts exampleConfig ''example.com'' = Some \<lparr>root = ''/var/www/'', branches = True\<rparr> \<and>
   loadedHosts exampleConfig ''plain.example'' = Some \<lparr>root = ''/srv/site/'', branches = False\<rparr> \<and>
   hostMiddleware (loadedHosts exampleConfig) (exampleGet ''example.com'' ''/123/'' []) =
     Inr \<lparr>logicalPath = Some ''/123/index.html'', reqRoot = ''/var/www/''\<rparr> \<and>
   hostMiddleware (loadedHosts exampleConfig) (exampleGet ''example.com'' ''/123/editor'' []) =
     Inr \<lparr>logicalPath = Some ''/123/editor.html'', reqRoot = ''/var/www/''\<rparr> \<and>
   hostMiddleware (loadedHosts exampleConfig) (exampleGet ''plain.example'' ''/123/'' []) =
     Inr \<lparr>logicalPath = Some ''/index.html'', reqRoot = ''/srv/site/''\<rparr> \<and>
   hostMiddleware (loadedHosts exampleConfig) (exampleGet ''plain.example'' ''/123/editor'' []) =
     Inr \<lparr>logicalPath = Some ''/editor.html'', reqRoot = ''/srv/site/''\<rparr> \<and>
   stripBranch True ''/123/editor'' = (''/123'', ''/editor'') \<and>
   pathNameOf (exampleGet ''example.com'' ''/123/'' [])
     \<lparr>logicalPath = Some ''/123/index.html'', reqRoot = ''/var/www/''\<rparr> = ''/123/index.html'' \<and>
   pathNameOf (exampleGet ''example.com'' ''/123/editor'' [])
     \<lparr>logicalPath = Some ''/123/editor.html'', reqRoot = ''/var/www/''\<rparr> = ''/123/editor.html'' \<and>
   pathNameOf (exampleGet ''plain.example'' ''/123/'' [])
     \<lparr>logicalPath = Some ''/index.html'', reqRoot = ''/srv/site/''\<rparr> = ''/index.html'' \<and>
   pathNameOf (exampleGet ''plain.example'' ''/123/editor'' [])
     \<lparr>logicalPath = Some ''/editor.html'', reqRoot = ''/srv/site/''\<rparr> = ''/editor.html''"
proof -
  let ?hb = "\<lparr>root = ''/var/www/'', branches = True\<rparr>"
  let ?hp = "\<lparr>root = ''/srv/site/'', branches = False\<rparr>"
  let ?b1 = "exampleGet ''example.com'' ''/123/'' []"
  let ?b2 = "exampleGet ''example.com'' ''/123/editor'' []"
  let ?p1 = "exampleGet ''plain.example'' ''/123/'' []"
  let ?p2 = "exampleGet ''plain.example'' ''/123/editor'' []"
  have ne: "''123'' \<noteq> []" by simp
  have la: "list_all is_digit ''123''" by (simp add: is_digit_def)
  then have dg: "\<forall>c \<in> set ''123''. is_digit c" by (simp only: list_all_iff)
  have hb: "loadedHosts exampleConfig ''example.com'' = Some ?hb" by code_simp
  have hp: "loadedHosts exampleConfig ''plain.example'' = Some ?hp" by code_simp
  have "\<not> isl (hostMiddleware (loadedHosts exampleConfig) ?b1)"
    "logicalPath (projr (hostMiddleware (loadedHosts exampleConfig) ?b1)) = Some ''/123/index.html''"
    "reqRoot (projr (hostMiddleware (loadedHosts exampleConfig) ?b1)) = ''/var/www/''"
    by code_simp+
  then have m1: "hostMiddleware (loadedHosts exampleConfig) ?b1 =
      Inr \<lparr>logicalPath = Some ''/123/index.html'', reqRoot = ''/var/www/''\<rparr>"
    by (rule hostMiddleware_InrI)
  have "\<not> isl (hostMiddleware (loadedHosts exampleConfig) ?b2)"
    "logicalPath (projr (hostMiddleware (loadedHosts exampleConfig) ?b2)) = Some ''/123/editor.html''"
    "reqRoot (projr (hostMiddleware (loadedHosts exampleConfig) ?b2)) = ''/var/www/''"
    by code_simp+
  then have m2: "hostMiddleware (loadedHosts exampleConfig) ?b2 =
      Inr \<lparr>logicalPath = Some ''/123/editor.html'', reqRoot = ''/var/www/''\<rparr>"
    by (rule hostMiddleware_InrI)
  have "\<not> isl (hostMiddleware (loadedHosts exampleConfig) ?p1)"
    "logicalPath (projr (hostMiddleware (loadedHosts exampleConfig) ?p1)) = Some ''/index.html''"
    "reqRoot (projr (hostMiddleware (loadedHosts exampleConfig) ?p1)) = ''/srv/site/''"
    by code_simp+
  then have m3: "hostMiddleware (loadedHosts exampleConfig) ?p1 =
      Inr \<lparr>logicalPath = Some ''/index.html'', reqRoot = ''/srv/site/''\<rparr>"
    by (rule hostMiddleware_InrI)
  have "\<not> isl (hostMiddleware (loadedHosts exampleConfig) ?p2)"
    "logicalPath (projr (hostMiddleware (loadedHosts exampleConfig) ?p2)) = Some ''/editor.html''"
    "reqRoot (projr (hostMiddleware (loadedHosts exampleConfig) ?p2)) = ''/srv/site/''"
    by code_simp+
  then have m4: "hostMiddleware (loadedHosts exampleConfig) ?p2 =
      Inr \<lparr>logicalPath = Some ''/editor.html'', reqRoot = ''/srv/site/''\<rparr>"
    by (rule hostMiddleware_InrI)
  have hb1: "loadedHosts exampleConfig (reqHostname ?b1) = Some ?hb"
    and hb2: "loadedHosts exampleConfig (reqHostname ?b2) = Some ?hb"
    and hp1: "loadedHosts exampleConfig (reqHostname ?p1) = Some ?hp"
    and hp2: "loadedHosts exampleConfig (reqHostname ?p2) = Some ?hp"
    using hb hp by (simp_all add: exampleGet_def)
  from C10_digit_segment_branch [OF hb2 m2 ne dg, of "''editor''"]
  have s: "stripBranch True ''/123/editor'' = (''/123'', ''/editor'')"
    by (simp add: exampleGet_def)
  from C10_digit_segment_branch [OF hb1 m1 ne dg, of "[]"]
  have c1: "pathNameOf ?b1 \<lparr>logicalPath = Some ''/123/index.html'', reqRoot = ''/var/www/''\<rparr> =
      ''/123/index.html''"
    by (simp add: exampleGet_def)
  from C10_digit_segment_branch [OF hb2 m2 ne dg, of "[]"]
  have c2: "pathNameOf ?b2 \<lparr>logicalPath = Some ''/123/editor.html'', reqRoot = ''/var/www/''\<rparr> =
      ''/123/editor.html''"
    by (simp add: exampleGet_def)
  from C10_digit_segment_branch [OF hp1 m3 ne dg, of "[]"]
  have c3: "pathNameOf ?p1 \<lparr>logicalPath = Some ''/index.html'', reqRoot = ''/srv/site/''\<rparr> =
      ''/index.html''"
    by (simp add: exampleGet_def)
  from C10_digit_segment_branch [OF hp2 m4 ne dg, of "[]"]
  have c4: "pathNameOf ?p2 \<lparr>logicalPath = Some ''/editor.html'', reqRoot = ''/srv/site/''\<rparr> =
      ''/editor.html''"
    by (simp add: exampleGet_def)
  show ?thesis
    by (rule conjI [OF ne conjI [OF la conjI [OF hb conjI [OF hp conjI [OF m1 conjI [OF m2
          conjI [OF m3 conjI [OF m4 conjI [OF s conjI [OF c1 conjI [OF c2 conjI [OF c3 c4]]]]]]]]]]]])
qed

end
